theory Spec2Isabelle
  imports Main "HOL-Library.Multiset"
begin

section \<open>Python values used by HuntingTourneyBot.py\<close>

text \<open>
  Strings are lists of characters (code points below 256, which covers every literal of
  the program).  Exceptions are values of \<open>py_error\<close>; a function that can raise returns
  \<open>py_error + 'a\<close> with \<open>Inl\<close> for the exception.
\<close>

datatype py_error = ValueError | IndexError | KeyError | FileNotFoundError

text \<open>\<open>str.lower\<close> on code points below 256: A-Z and the Latin-1 capitals move up by 32.\<close>

definition lower_char :: "char \<Rightarrow> char" where
  "lower_char c =
     (let n = (of_char c :: nat)
      in if (65 \<le> n \<and> n \<le> 90) \<or> (192 \<le> n \<and> n \<le> 222 \<and> n \<noteq> 215)
         then char_of (n + 32) else c)"

definition lower :: "string \<Rightarrow> string" where
  "lower s = map lower_char s"

text \<open>\<open>str(n)\<close> for an integer: decimal digits, most significant first, a minus sign if negative.\<close>

fun str_nat :: "nat \<Rightarrow> string" where
  "str_nat n =
     (if n < 10 then [''0123456789'' ! n]
      else str_nat (n div 10) @ [''0123456789'' ! (n mod 10)])"

declare str_nat.simps [simp del]

definition py_str :: "int \<Rightarrow> string" where
  "py_str i = (if i < 0 then CHR ''-'' # str_nat (nat (- i)) else str_nat (nat i))"

text \<open>
  \<open>int(s)\<close> on a string of decimal digits.  The program applies \<open>int\<close> only to values it
  wrote itself with \<open>str\<close> or as the literal \<open>"0"\<close>; any other string is reported as
  \<open>ValueError\<close> here.
\<close>

definition is_digit :: "char \<Rightarrow> bool" where
  "is_digit c = (c \<in> set ''0123456789'')"

definition digit_val :: "char \<Rightarrow> nat" where
  "digit_val c = of_char c - 48"

definition py_int :: "string \<Rightarrow> py_error + int" where
  "py_int s =
     (if s \<noteq> [] \<and> list_all is_digit s
      then Inr (int (foldl (\<lambda>acc c. 10 * acc + digit_val c) 0 s))
      else Inl ValueError)"

text \<open>
  A \<open>dict\<close> keeps its keys in insertion order; assigning to a key that is present
  replaces the value where the key stands, assigning to a new key appends it.
\<close>

type_synonym ('k, 'v) dict = "('k \<times> 'v) list"

fun dict_set :: "('k, 'v) dict \<Rightarrow> 'k \<Rightarrow> 'v \<Rightarrow> ('k, 'v) dict" where
  "dict_set [] k v = [(k, v)]"
| "dict_set ((k', v') # d) k v =
     (if k' = k then (k', v) # d else (k', v') # dict_set d k v)"

definition dict_has :: "('k, 'v) dict \<Rightarrow> 'k \<Rightarrow> bool" where
  "dict_has d k = (k \<in> fst ` set d)"

text \<open>List indexing: a negative index counts from the end, anything else out of range raises.\<close>

definition py_index :: "nat \<Rightarrow> int \<Rightarrow> nat option" where
  "py_index n i =
     (if 0 \<le> i \<and> i < int n then Some (nat i)
      else if - int n \<le> i \<and> i < 0 then Some (nat (int n + i))
      else None)"

definition py_setitem :: "'a list \<Rightarrow> int \<Rightarrow> 'a \<Rightarrow> py_error + 'a list" where
  "py_setitem xs i v =
     (case py_index (length xs) i of None \<Rightarrow> Inl IndexError | Some j \<Rightarrow> Inr (xs[j := v]))"

subsection \<open>The module \<open>random\<close>\<close>

text \<open>
  The three functions the program imports from \<open>random\<close> are answered by a source of
  randomness \<open>r\<close>: \<open>shuffle_fn r xs\<close> is the list that \<open>shuffle\<close> leaves in place of \<open>xs\<close>,
  \<open>randint_fn r a b\<close> is what \<open>randint(a, b)\<close> returns on a non-empty range, and
  \<open>choice_fn r xs\<close> is what \<open>choice(xs)\<close> returns.  \<open>rng_ok\<close> is the library's contract:
  \<open>shuffle\<close> permutes, \<open>randint\<close> stays within its bounds, \<open>choice\<close> picks an element.
  Distributions are not part of the model.
\<close>

record random_src =
  shuffle_fn :: "string list \<Rightarrow> string list"
  randint_fn :: "int \<Rightarrow> int \<Rightarrow> int"
  choice_fn :: "int list \<Rightarrow> int"

definition rng_ok :: "random_src \<Rightarrow> bool" where
  "rng_ok r \<longleftrightarrow>
     (\<forall>xs. mset (shuffle_fn r xs) = mset xs) \<and>
     (\<forall>a b. a \<le> b \<longrightarrow> a \<le> randint_fn r a b \<and> randint_fn r a b \<le> b) \<and>
     (\<forall>xs. xs \<noteq> [] \<longrightarrow> choice_fn r xs \<in> set xs)"

text \<open>\<open>randint(a, b)\<close> raises \<open>ValueError\<close> on an empty range.\<close>

definition randint :: "random_src \<Rightarrow> int \<Rightarrow> int \<Rightarrow> py_error + int" where
  "randint r a b = (if a \<le> b then Inr (randint_fn r a b) else Inl ValueError)"

section \<open>Module constants\<close>

definition OUTPUT_DIR :: string where
  "OUTPUT_DIR = ''.output''"

definition MAX_SEED :: int where
  "MAX_SEED = 2 ^ 31 - 1"

definition STAGES :: "(string, string list) dict" where
  "STAGES =
     [(''Wild Canyon'', [''WC'', ''wild'', ''canyon'']),
      (''Pumpkin Hill'', [''PH'', ''pumpkin'', ''hill'']),
      (''Death Chamber'', [''DC'', ''death'', ''chamber'']),
      (''Aquatic Mine'', [''AM'', ''aquatic'', ''mine'']),
      (''Meteor Herd'', [''MH'', ''meteor'', ''herd'']),
      (''Dry Lagoon'', [''DL'', ''dry'', ''lagoon'']),
      (''Egg Quarters'', [''EQ'', ''egg'', ''quarters'']),
      (''Security Hall'', [''SH'', ''security'', ''hall'']),
      (''Mad Space'', [''MS'', ''mad'', ''space''])]"

definition STAGE_NAMES :: "string list" where
  "STAGE_NAMES = map fst STAGES"

section \<open>DraftManager\<close>

text \<open>
  The fields of \<open>DraftManager\<close>.  \<open>countdown_channel\<close> holds a handle of the text channel;
  the console thread object is not part of the state modelled here.
\<close>

record session =
  runner1 :: "string option"
  runner2 :: "string option"
  first_banner :: "string option"
  second_banner :: "string option"
  banned_stages :: "string list"
  current_turn :: "string option"
  draft_active :: bool
  countdown_channel :: "nat option"
  waiting_for_ban1 :: bool
  waiting_for_ban2 :: bool
  ordered_stages :: "(string \<times> int \<times> string) list"
  split_list :: "string list"
  output_lines :: "string list"

text \<open>\<open>__init__\<close>\<close>

definition init_session :: session where
  "init_session =
     \<lparr>runner1 = None, runner2 = None, first_banner = None, second_banner = None,
      banned_stages = [], current_turn = None, draft_active = False,
      countdown_channel = None, waiting_for_ban1 = False, waiting_for_ban2 = False,
      ordered_stages = [], split_list = [], output_lines = ['''', '''', '''']\<rparr>"

text \<open>\<open>clear_draft_status\<close> and \<open>reset\<close> (the write of the status file is an effect outside the state).\<close>

definition clear_draft_status :: "session \<Rightarrow> session" where
  "clear_draft_status s = s\<lparr>output_lines := ['''', '''', '''']\<rparr>"

definition reset :: "session \<Rightarrow> session" where
  "reset s =
     clear_draft_status
       (s\<lparr>runner1 := None, runner2 := None, first_banner := None, second_banner := None,
          banned_stages := [], current_turn := None, draft_active := False,
          countdown_channel := None, waiting_for_ban1 := False, waiting_for_ban2 := False,
          ordered_stages := [], split_list := []\<rparr>)"

subsection \<open>\<open>generate_ordered_stages\<close>\<close>

text \<open>Lines 117-120: \<open>stage_abbrs[stage] = STAGES[stage][0].lower()\<close> for each stage name.\<close>

fun abbr_pass :: "string list \<Rightarrow> (string, string) dict \<Rightarrow> py_error + (string, string) dict" where
  "abbr_pass [] d = Inr d"
| "abbr_pass (stage # rest) d =
     (case map_of STAGES stage of
        None \<Rightarrow> Inl KeyError
      | Some [] \<Rightarrow> Inl IndexError
      | Some (a # _) \<Rightarrow> abbr_pass rest (dict_set d stage (lower a)))"

text \<open>Lines 123-125: the reverse mapping.\<close>

definition reverse_abbrs :: "(string, string) dict \<Rightarrow> (string, string) dict" where
  "reverse_abbrs stage_abbrs = foldl (\<lambda>d (stage, abbr). dict_set d abbr stage) [] stage_abbrs"

text \<open>Lines 131-133: every banned stage gets \<open>"0"\<close>.\<close>

fun ban_pass :: "(string, string) dict \<Rightarrow> string list \<Rightarrow> (string, string) dict \<Rightarrow> (string, string) dict" where
  "ban_pass stage_abbrs [] d = d"
| "ban_pass stage_abbrs (stage # rest) d =
     ban_pass stage_abbrs rest
       (case map_of stage_abbrs stage of None \<Rightarrow> d | Some abbr \<Rightarrow> dict_set d abbr ''0'')"

text \<open>Lines 136-138: the stages that are not banned, in the order of the catalog.\<close>

definition remaining_of :: "string list \<Rightarrow> string list" where
  "remaining_of banned = filter (\<lambda>stage. stage \<notin> set banned) STAGE_NAMES"

text \<open>
  Lines 139-146: the remaining stages are shuffled; when Security Hall comes out first it
  changes places with the entry at \<open>randint(1, len - 1)\<close>.
\<close>

definition shuffle_remaining :: "random_src \<Rightarrow> string list \<Rightarrow> py_error + string list" where
  "shuffle_remaining r banned =
     (let remaining_stages = shuffle_fn r (remaining_of banned)
      in case remaining_stages of
           [] \<Rightarrow> Inr remaining_stages
         | first # _ \<Rightarrow>
             if first = ''Security Hall'' then
               (case randint r 1 (int (length remaining_stages) - 1) of
                  Inl e \<Rightarrow> Inl e
                | Inr swap_idx \<Rightarrow>
                    (case py_index (length remaining_stages) swap_idx of
                       None \<Rightarrow> Inl IndexError
                     | Some j \<Rightarrow>
                         Inr (remaining_stages[0 := remaining_stages ! j, j := first])))
             else Inr remaining_stages)"

text \<open>Lines 148-150: rank \<open>str(i + 1)\<close> for the stage at position \<open>i\<close>.\<close>

fun rank_pass :: "(string, string) dict \<Rightarrow> (nat \<times> string) list \<Rightarrow> (string, string) dict \<Rightarrow> (string, string) dict" where
  "rank_pass stage_abbrs [] d = d"
| "rank_pass stage_abbrs ((i, stage) # rest) d =
     rank_pass stage_abbrs rest
       (case map_of stage_abbrs stage of
          None \<Rightarrow> d
        | Some abbr \<Rightarrow> dict_set d abbr (py_str (int i + 1)))"

text \<open>Lines 153-156 (and 312-315): a stage without an entry gets \<open>"0"\<close>.\<close>

fun fill_pass :: "(string, string) dict \<Rightarrow> string list \<Rightarrow> (string, string) dict \<Rightarrow> py_error + (string, string) dict" where
  "fill_pass stage_abbrs [] d = Inr d"
| "fill_pass stage_abbrs (stage # rest) d =
     (case map_of stage_abbrs stage of
        None \<Rightarrow> Inl KeyError
      | Some abbr \<Rightarrow>
          fill_pass stage_abbrs rest (if dict_has d abbr then d else dict_set d abbr ''0''))"

text \<open>Lines 159-162: one triple per entry of \<open>order_dict\<close>, in the order of its keys.\<close>

fun build_ordered :: "(string, string) dict \<Rightarrow> (string, string) dict \<Rightarrow> py_error + (string \<times> int \<times> string) list" where
  "build_ordered abbr_to_stage [] = Inr []"
| "build_ordered abbr_to_stage ((abbr, order_value) # rest) =
     (case map_of abbr_to_stage abbr of
        None \<Rightarrow> Inl KeyError
      | Some stage_name \<Rightarrow>
          (case py_int order_value of
             Inl e \<Rightarrow> Inl e
           | Inr n \<Rightarrow>
               (case build_ordered abbr_to_stage rest of
                  Inl e \<Rightarrow> Inl e
                | Inr tl_ordered \<Rightarrow> Inr ((stage_name, n, abbr) # tl_ordered))))"

definition generate_ordered_stages ::
  "random_src \<Rightarrow> session \<Rightarrow>
   py_error + (session \<times> (string \<times> int \<times> string) list \<times> (string, string) dict)" where
  "generate_ordered_stages r s =
     (case abbr_pass STAGE_NAMES [] of
        Inl e \<Rightarrow> Inl e
      | Inr stage_abbrs \<Rightarrow>
          (case shuffle_remaining r (banned_stages s) of
             Inl e \<Rightarrow> Inl e
           | Inr remaining_stages \<Rightarrow>
               (case fill_pass stage_abbrs STAGE_NAMES
                       (rank_pass stage_abbrs (enumerate 0 remaining_stages)
                          (ban_pass stage_abbrs (banned_stages s) [])) of
                  Inl e \<Rightarrow> Inl e
                | Inr order_dict \<Rightarrow>
                    (case build_ordered (reverse_abbrs stage_abbrs) order_dict of
                       Inl e \<Rightarrow> Inl e
                     | Inr ordered \<Rightarrow>
                         Inr (s\<lparr>ordered_stages := ordered\<rparr>, ordered, stage_abbrs)))))"

text \<open>
  The value that lines 117-120 compute for \<open>stage_abbrs\<close> (lemma \<open>abbr_pass_STAGE_NAMES\<close>),
  and the key it gives a stage.
\<close>

definition stage_abbrs_value :: "(string, string) dict" where
  "stage_abbrs_value =
     [(''Wild Canyon'', ''wc''), (''Pumpkin Hill'', ''ph''), (''Death Chamber'', ''dc''),
      (''Aquatic Mine'', ''am''), (''Meteor Herd'', ''mh''), (''Dry Lagoon'', ''dl''),
      (''Egg Quarters'', ''eq''), (''Security Hall'', ''sh''), (''Mad Space'', ''ms'')]"

definition abbr_of :: "string \<Rightarrow> string" where
  "abbr_of stage = (case map_of stage_abbrs_value stage of None \<Rightarrow> [] | Some abbr \<Rightarrow> abbr)"

text \<open>
  Two sources of randomness that keep the contract, for examples: one leaves every list
  as it is and draws the least value, the other reverses every list and draws the
  greatest value.
\<close>

definition rng_keep :: random_src where
  "rng_keep = \<lparr>shuffle_fn = (\<lambda>xs. xs), randint_fn = (\<lambda>a b. a), choice_fn = hd\<rparr>"

definition rng_rev :: random_src where
  "rng_rev = \<lparr>shuffle_fn = rev, randint_fn = (\<lambda>a b. b), choice_fn = last\<rparr>"

text \<open>
  As \<open>rng_rev\<close>, but a draw from a range that ends above 6 is the least value of the
  range (so that the seed drawn is 1); and the same with the second least value for
  such a range of several values (the seed drawn is 2).
\<close>

definition rng_swap :: random_src where
  "rng_swap = \<lparr>shuffle_fn = rev, randint_fn = (\<lambda>a b. if 6 < b then a else b), choice_fn = hd\<rparr>"

definition rng_swap2 :: random_src where
  "rng_swap2 = \<lparr>shuffle_fn = rev, randint_fn = (\<lambda>a b. if 6 < b then (if a < b then a + 1 else a) else b), choice_fn = hd\<rparr>"

text \<open>A session in which Wild Canyon and Mad Space have been banned.\<close>

definition two_bans :: session where
  "two_bans = init_session\<lparr>banned_stages := [''Wild Canyon'', ''Mad Space'']\<rparr>"

text \<open>
  A session of Alice and Bob with the same bans that holds the ordering which
  \<open>generate_ordered_stages\<close> stores for them under \<open>rng_swap\<close> (lemma \<open>stored_example_ordering\<close>).
\<close>

definition stored_example :: session where
  "stored_example =
     init_session\<lparr>runner1 := Some ''Alice'', runner2 := Some ''Bob'',
        banned_stages := [''Wild Canyon'', ''Mad Space''],
        ordered_stages :=
          [(''Wild Canyon'', 0, ''wc''), (''Mad Space'', 0, ''ms''),
           (''Pumpkin Hill'', 1, ''ph''), (''Egg Quarters'', 2, ''eq''),
           (''Dry Lagoon'', 3, ''dl''), (''Meteor Herd'', 4, ''mh''),
           (''Aquatic Mine'', 5, ''am''), (''Death Chamber'', 6, ''dc''),
           (''Security Hall'', 7, ''sh'')]\<rparr>"

subsection \<open>\<open>generate_split_file\<close>\<close>

text \<open>An \<open>xml.etree\<close> element: tag, attributes, text, children.\<close>

datatype xml = Element (tag: string) (attrib: "(string \<times> string) list") (content: "string option") (children: "xml list")

definition leaf :: "string \<Rightarrow> xml" where
  "leaf t = Element t [] None []"

definition leaf_text :: "string \<Rightarrow> string \<Rightarrow> xml" where
  "leaf_text t x = Element t [] (Some x) []"

text \<open>Lines 182-190: the \<open>Segment\<close> element of one split.\<close>

definition segment :: "string \<Rightarrow> xml" where
  "segment split_name =
     Element ''Segment'' [] None
       [leaf_text ''Name'' split_name,
        leaf ''Icon'',
        Element ''SplitTimes'' [] None [Element ''SplitTime'' [(''name'', ''Personal Best'')] None []],
        leaf ''BestSegmentTime'',
        leaf ''SegmentHistory'']"

text \<open>
  The body of the inner loop of \<open>_create_livesplit_segments\<close>, on the triple of
  \<open>self.split_list\<close>, the children of \<open>segments\<close> and \<open>split_num\<close>.
\<close>

fun split_step :: "string \<Rightarrow> int \<Rightarrow> string list \<times> xml list \<times> int \<Rightarrow> int \<Rightarrow> string list \<times> xml list \<times> int" where
  "split_step stage total_splits (names, segs, split_num) i =
     (let split_name = stage @ '' '' @ py_str i
      in (names @ [split_name],
          segs @ [segment (split_name @ '' ('' @ py_str split_num @ ''/'' @ py_str total_splits @ '')'')],
          split_num + 1))"

definition create_livesplit_segments :: "xml \<Rightarrow> string list \<Rightarrow> int \<Rightarrow> session \<Rightarrow> session \<times> xml" where
  "create_livesplit_segments segments stage_order total_splits s =
     (case foldl (\<lambda>acc stage. foldl (split_step stage total_splits) acc [1, 2, 3, 4, 5])
             ([], children segments, 1) stage_order of
        (names, segs, _) \<Rightarrow>
          (s\<lparr>split_list := names\<rparr>, Element (tag segments) (attrib segments) (content segments) segs))"

text \<open>
  The labels of the splits of a list of stages when the running index starts at \<open>num\<close>
  (used to describe the result of the loop).
\<close>

fun seg_labels :: "int \<Rightarrow> int \<Rightarrow> string list \<Rightarrow> string list" where
  "seg_labels tot num [] = []"
| "seg_labels tot num (stage # rest) =
     map (\<lambda>i. stage @ '' '' @ py_str (int i + 1) @ '' ('' @ py_str (num + int i) @ ''/'' @ py_str tot @ '')'')
         [0, 1, 2, 3, 4]
     @ seg_labels tot (num + 5) rest"

text \<open>The names of the segments of a \<open>Segments\<close> element, in document order.\<close>

definition segment_names :: "xml \<Rightarrow> string list" where
  "segment_names segments =
     concat (map (\<lambda>seg. concat (map (\<lambda>c. if tag c = ''Name'' then (case content c of None \<Rightarrow> [] | Some x \<Rightarrow> [x]) else [])
                                      (children seg)))
                 (children segments))"

definition add_livesplit_settings :: "xml \<Rightarrow> xml" where
  "add_livesplit_settings custom_settings =
     Element (tag custom_settings) (attrib custom_settings) (content custom_settings)
       (children custom_settings @
        map (\<lambda>(setting_id, v). Element ''Setting'' [(''id'', setting_id), (''type'', ''bool'')] (Some v) [])
          [(''storyStart'', ''False''), (''NG+'', ''False''), (''huntingTimer'', ''True''),
           (''timeIGT'', ''False''), (''combinedHunting'', ''False''), (''no280'', ''False''),
           (''fileReset'', ''True''), (''stageExit'', ''False''), (''resetIL'', ''False''),
           (''stageEntry'', ''False''), (''chaoRace'', ''False''), (''backRing'', ''False''),
           (''cannonsCore'', ''False''), (''bossRush'', ''False'')])"

text \<open>Lines 253-258: the stages of positive rank, sorted by rank (a stable sort).\<close>

definition active_stages :: "(string \<times> int \<times> string) list \<Rightarrow> (string \<times> int) list" where
  "active_stages ordered =
     sort_key snd (map (\<lambda>(stage, order, _). (stage, order))
                       (filter (\<lambda>(stage, order, _). order > 0) ordered))"

definition stage_order_of :: "(string \<times> int \<times> string) list \<Rightarrow> string list" where
  "stage_order_of ordered = map fst (active_stages ordered)"

text \<open>How an f-string shows an optional name.\<close>

definition fmt_opt :: "string option \<Rightarrow> string" where
  "fmt_opt x = (case x of None \<Rightarrow> ''None'' | Some v \<Rightarrow> v)"

text \<open>\<open>os.path.join(OUTPUT_DIR, filename)\<close>, with the separator of a POSIX system.\<close>

definition output_path :: "string \<Rightarrow> string" where
  "output_path filename = OUTPUT_DIR @ ''/'' @ filename"

text \<open>
  \<open>open(filepath, "w")\<close> for a file of \<open>OUTPUT_DIR\<close>, a directory that \<open>os.makedirs\<close> has
  just ensured and that holds no subdirectory: the call raises \<open>FileNotFoundError\<close>
  exactly when the file name itself contains the separator, since the directory it then
  names does not exist.  Other failures of the file system are not modelled.
\<close>

definition open_for_write :: "string \<Rightarrow> py_error option" where
  "open_for_write filename = (if CHR ''/'' \<in> set filename then Some FileNotFoundError else None)"

text \<open>Lines 226-279: the element tree around the \<open>Segments\<close> element.\<close>

definition split_document :: "xml \<Rightarrow> xml" where
  "split_document segments =
     Element ''Run'' [(''version'', ''1.7.0'')] None
       [leaf ''GameIcon'',
        leaf_text ''GameName'' ''Sonic Adventure 2: Battle - Category Extensions'',
        leaf_text ''CategoryName'' ''Hunting Tourney!'',
        leaf ''LayoutPath'',
        Element ''Metadata'' [] None
          [Element ''Run'' [(''id'', '''')] None [],
           Element ''Platform'' [(''usesEmulator'', ''False'')] None [],
           leaf ''Region'',
           leaf ''Variables''],
        leaf_text ''Offset'' ''00:00:00'',
        leaf_text ''AttemptCount'' ''0'',
        leaf ''AttemptHistory'',
        segments,
        Element ''AutoSplitterSettings'' [] None
          [leaf_text ''Version'' ''1.5'',
           leaf_text ''ScriptPath''
             (''C:'' @ [CHR 0x5C] @ ''Users'' @ [CHR 0x5C] @ ''PC'' @ [CHR 0x5C] @ ''Downloads''
              @ [CHR 0x5C] @ ''LiveSplit_1.8.16'' @ [CHR 0x5C] @ ''Components'' @ [CHR 0x5C]
              @ ''LiveSplit.SA2.asl''),
           leaf_text ''Start'' ''True'',
           leaf_text ''Reset'' ''True'',
           leaf_text ''Split'' ''True'',
           add_livesplit_settings (leaf ''CustomSettings'')]]"

text \<open>
  \<open>generate_split_file\<close> returns the session, in which \<open>split_list\<close> has been set, and
  either the exception that \<open>open\<close> raises or the file name inside \<open>OUTPUT_DIR\<close> with the
  element tree that is pretty-printed into the file.
\<close>

definition generate_split_file :: "session \<Rightarrow> session \<times> (py_error + string \<times> xml)" where
  "generate_split_file s =
     (let filename = ''SA2B - Hunting Tourney - '' @ fmt_opt (runner1 s) @ '' vs '' @ fmt_opt (runner2 s) @ ''.lss'';
          stage_order = stage_order_of (ordered_stages s);
          total_splits = int (length stage_order) * 5
      in case create_livesplit_segments (leaf ''Segments'') stage_order total_splits s of
           (s', segments) \<Rightarrow>
             (s', case open_for_write filename of
                    Some e \<Rightarrow> Inl e
                  | None \<Rightarrow> Inr (filename, split_document segments)))"

text \<open>The segment names of a split document.\<close>

definition document_segment_names :: "xml \<Rightarrow> string list" where
  "document_segment_names doc =
     concat (map segment_names (filter (\<lambda>c. tag c = ''Segments'') (children doc)))"

subsection \<open>\<open>generate_config_file\<close>\<close>

text \<open>A \<open>ConfigParser\<close> with \<open>optionxform = str\<close>: sections in the order they were set, each a \<open>dict\<close>.\<close>

type_synonym config = "(string, (string, string) dict) dict"

definition write_config_section :: "config \<Rightarrow> string \<Rightarrow> (string, string) dict \<Rightarrow> config" where
  "write_config_section config section data = dict_set config section data"

text \<open>Lines 320-324: the text written to the file.\<close>

definition render_config :: "config \<Rightarrow> string" where
  "render_config config =
     concat (map (\<lambda>(section, items).
                    ''['' @ section @ '']'' @ [CHR 0x0A]
                    @ concat (map (\<lambda>(key, v). key @ ''='' @ v @ [CHR 0x0A]) items)
                    @ [CHR 0x0A])
                 config)"

text \<open>Line 317: \<open>{stage_abbrs[stage]: "5" for stage in STAGE_NAMES}\<close>.\<close>

fun number_pass :: "(string, string) dict \<Rightarrow> string list \<Rightarrow> (string, string) dict \<Rightarrow> py_error + (string, string) dict" where
  "number_pass stage_abbrs [] d = Inr d"
| "number_pass stage_abbrs (stage # rest) d =
     (case map_of stage_abbrs stage of
        None \<Rightarrow> Inl KeyError
      | Some abbr \<Rightarrow> number_pass stage_abbrs rest (dict_set d abbr ''5''))"

text \<open>
  The sections of the file.  The ordering is generated afresh by every call (line 303),
  before the seed is drawn.
\<close>

definition config_sections :: "random_src \<Rightarrow> session \<Rightarrow> py_error + (session \<times> config)" where
  "config_sections r s =
     (case generate_ordered_stages r s of
        Inl e \<Rightarrow> Inl e
      | Inr (s', ordered, stage_abbrs) \<Rightarrow>
          (case randint r 1 MAX_SEED of
             Inl e \<Rightarrow> Inl e
           | Inr seed \<Rightarrow>
               (let config1 = write_config_section [] ''set'' [(''seed'', py_str seed), (''ups'', ''True'')];
                    order_dict0 = foldl (\<lambda>d (stage_name, order_value, abbr). dict_set d abbr (py_str order_value)) [] ordered
                in case fill_pass stage_abbrs STAGE_NAMES order_dict0 of
                     Inl e \<Rightarrow> Inl e
                   | Inr order_dict \<Rightarrow>
                       (case number_pass stage_abbrs STAGE_NAMES [] of
                          Inl e \<Rightarrow> Inl e
                        | Inr number_dict \<Rightarrow>
                            Inr (s', write_config_section
                                       (write_config_section config1 ''order'' order_dict)
                                       ''number'' number_dict)))))"

text \<open>
  \<open>generate_config_file\<close>: the session, the file name inside \<open>OUTPUT_DIR\<close>, the file's text.
  (The name \<open>config.ini\<close> holds no separator, so \<open>open\<close> does not raise.)
\<close>

definition generate_config_file :: "random_src \<Rightarrow> session \<Rightarrow> py_error + (session \<times> string \<times> string)" where
  "generate_config_file r s =
     (case config_sections r s of
        Inl e \<Rightarrow> Inl e
      | Inr (s', config) \<Rightarrow> Inr (s', ''config.ini'', render_config config))"

text \<open>The text of the file that a call of \<open>generate_config_file\<close> wrote (empty if it raised).\<close>

definition config_text :: "py_error + (session \<times> string \<times> string) \<Rightarrow> string" where
  "config_text res = (case res of Inl e \<Rightarrow> [] | Inr (s', name, body) \<Rightarrow> body)"

text \<open>
  A text as a list of lines, each followed by a newline, and a text cut back into its
  lines.
\<close>

definition unlines :: "string list \<Rightarrow> string" where
  "unlines ls = concat (map (\<lambda>l. l @ [CHR 0x0A]) ls)"

fun lines_of :: "string \<Rightarrow> string list" where
  "lines_of [] = []"
| "lines_of (c # cs) =
     (if c = CHR 0x0A then [] # lines_of cs
      else (case lines_of cs of [] \<Rightarrow> [[c]] | l # ls \<Rightarrow> (c # l) # ls))"

text \<open>The lines that \<open>render_config\<close> writes for a configuration.\<close>

definition config_lines :: "config \<Rightarrow> string list" where
  "config_lines config =
     concat (map (\<lambda>(section, items).
                    (''['' @ section @ '']'') # map (\<lambda>(key, v). key @ ''='' @ v) items @ [''''])
                 config)"

text \<open>
  Reading a file of this format: the lines of a section are those after its header up to
  the next empty line, and the key of a line is what stands before its first \<open>=\<close>.
\<close>

definition file_section :: "string \<Rightarrow> string \<Rightarrow> string list" where
  "file_section section body =
     takeWhile (\<lambda>l. l \<noteq> []) (drop 1 (dropWhile (\<lambda>l. l \<noteq> ''['' @ section @ '']'') (lines_of body)))"

definition file_section_keys :: "string \<Rightarrow> string \<Rightarrow> string list" where
  "file_section_keys section body = map (takeWhile (\<lambda>c. c \<noteq> CHR ''='')) (file_section section body)"

subsection \<open>\<open>resolve_stage_name\<close>\<close>

text \<open>The two passes over \<open>STAGES.items()\<close>, each returning at its first hit.\<close>

fun exact_pass :: "string \<Rightarrow> (string, string list) dict \<Rightarrow> string option" where
  "exact_pass stage_input [] = None"
| "exact_pass stage_input ((stage_name, abbreviations) # rest) =
     (if stage_input = lower stage_name then Some stage_name else exact_pass stage_input rest)"

fun alias_pass :: "string \<Rightarrow> (string, string list) dict \<Rightarrow> string option" where
  "alias_pass stage_input [] = None"
| "alias_pass stage_input ((stage_name, abbreviations) # rest) =
     (if stage_input \<in> set (map lower abbreviations) then Some stage_name
      else alias_pass stage_input rest)"

definition resolve_stage_name :: "string \<Rightarrow> string option" where
  "resolve_stage_name stage_input0 =
     (let stage_input = lower stage_input0
      in case exact_pass stage_input STAGES of
           Some stage_name \<Rightarrow> Some stage_name
         | None \<Rightarrow> alias_pass stage_input STAGES)"

subsection \<open>What a handler does besides changing the session\<close>

text \<open>
  A coroutine of the source returns \<open>None\<close> from every branch, or is left by an exception;
  this is all its caller gets back.  What it puts out on the way is a list of effects, in
  the order of the source: console lines, the status file, messages to a channel, the
  two generated files.  \<open>Deliver\<close> stands for lines 571-615, which hand the two files and
  the split list to the channels and catch their own exceptions.  The calls that send a
  message or write the status file are taken to succeed, and pauses are left out.
\<close>

datatype completion = Returned | Raised py_error

datatype effect =
    Print string
  | PrintError string py_error
  | StatusFile string
  | Reply string
  | Send string
  | ConfigFile string string
  | SplitFile string xml
  | Deliver string string

text \<open>\<open>"\n".join(lines)\<close> and \<open>write_draft_status\<close>.\<close>

fun join_lines :: "string list \<Rightarrow> string" where
  "join_lines [] = []"
| "join_lines [l] = l"
| "join_lines (l # ls) = l @ [CHR 0x0A] @ join_lines ls"

definition write_draft_status :: "session \<Rightarrow> effect" where
  "write_draft_status s = StatusFile (join_lines (output_lines s))"

subsection \<open>The ban flow: \<open>_process_ban\<close>, \<open>process_ban1\<close>, \<open>process_ban2\<close>\<close>

text \<open>The attribute names passed as \<open>waiting_attr\<close> and \<open>next_waiting_attr\<close>.\<close>

datatype waiting_attr = Waiting_for_ban1 | Waiting_for_ban2

fun getattr_waiting :: "session \<Rightarrow> waiting_attr \<Rightarrow> bool" where
  "getattr_waiting s Waiting_for_ban1 = waiting_for_ban1 s"
| "getattr_waiting s Waiting_for_ban2 = waiting_for_ban2 s"

fun setattr_waiting :: "session \<Rightarrow> waiting_attr \<Rightarrow> bool \<Rightarrow> session" where
  "setattr_waiting s Waiting_for_ban1 v = s\<lparr>waiting_for_ban1 := v\<rparr>"
| "setattr_waiting s Waiting_for_ban2 v = s\<lparr>waiting_for_ban2 := v\<rparr>"

text \<open>\<open>self.draft_manager.output_lines[i] = v\<close>\<close>

definition set_output_line :: "int \<Rightarrow> string \<Rightarrow> session \<Rightarrow> py_error + session" where
  "set_output_line i v s =
     (case py_setitem (output_lines s) i v of
        Inl e \<Rightarrow> Inl e
      | Inr ls \<Rightarrow> Inr (s\<lparr>output_lines := ls\<rparr>))"

text \<open>Lines 540-548: the message to the channel.\<close>

definition ban_message :: "string \<Rightarrow> string option \<Rightarrow> bool \<Rightarrow> string" where
  "ban_message full_stage_name next_banner is_final_ban =
     (case next_banner of
        Some nb \<Rightarrow>
          if \<not> is_final_ban
          then full_stage_name @ '' has been banned. It'' @ [CHR 0x27] @ ''s '' @ nb @ [CHR 0x27]
               @ ''s turn to ban. Please type which stage you would like to ban.''
          else full_stage_name @ '' has been banned.''
      | None \<Rightarrow> full_stage_name @ '' has been banned.'')"

text \<open>Lines 553-562: hand the turn to the next banner.\<close>

definition switch_turns ::
  "string \<Rightarrow> string \<Rightarrow> string \<Rightarrow> waiting_attr \<Rightarrow> waiting_attr option \<Rightarrow> session
   \<Rightarrow> completion \<times> effect list \<times> session" where
  "switch_turns full_stage_name banner next_banner waiting next_waiting s =
     (let s1 = s\<lparr>current_turn := Some next_banner\<rparr>
      in case set_output_line 0 (next_banner @ [CHR 0x27] @ ''s turn to ban'') s1 of
           Inl e \<Rightarrow> (Raised e, [], s1)
         | Inr s2 \<Rightarrow>
             (let s3 = setattr_waiting s2 waiting False;
                  s4 = (case next_waiting of None \<Rightarrow> s3 | Some a \<Rightarrow> setattr_waiting s3 a True)
              in (Returned,
                  [write_draft_status s2,
                   Print ([CHR 0x0A] @ banner @ '' banned '' @ full_stage_name),
                   Print (''Now waiting for '' @ next_banner @ [CHR 0x27] @ ''s ban...'')],
                  s4)))"

text \<open>
  Lines 563-620: conclude the draft.  Both files are generated before the flags are
  cleared, so an exception of either call leaves \<open>draft_active\<close> and the waiting flag as
  they were.
\<close>

definition conclude_draft ::
  "random_src \<Rightarrow> string \<Rightarrow> string \<Rightarrow> session \<Rightarrow> completion \<times> effect list \<times> session" where
  "conclude_draft r full_stage_name banner s =
     (let e0 = [Print ([CHR 0x0A] @ banner @ '' banned '' @ full_stage_name)]
      in case set_output_line 0 ''Draft concluded'' s of
           Inl e \<Rightarrow> (Raised e, e0, s)
         | Inr s1 \<Rightarrow>
             (let e1 = e0 @ [write_draft_status s1]
              in case generate_config_file r s1 of
                   Inl e \<Rightarrow> (Raised e, e1, s1)
                 | Inr (s2, config_name, config_body) \<Rightarrow>
                     (let config_file = output_path config_name;
                          e2 = e1 @ [ConfigFile config_file config_body,
                                     Print (''Generated config file: '' @ config_file)]
                      in case generate_split_file s2 of
                           (s3, written) \<Rightarrow>
                             (case written of
                                Inl e \<Rightarrow> (Raised e, e2, s3)
                              | Inr (split_name, split_doc) \<Rightarrow>
                                  (let split_file = output_path split_name;
                                       e3 = e2 @ [SplitFile split_file split_doc,
                                                  Print (''Generated LiveSplit file: '' @ split_file)]
                                               @ (if countdown_channel s3 \<noteq> None
                                                  then [Deliver split_file config_file] else [])
                                   in (Returned,
                                       e3 @ [Print ''The draft has been concluded.''],
                                       s3\<lparr>waiting_for_ban2 := False, draft_active := False\<rparr>))))))"

text \<open>
  \<open>_process_ban\<close>.  Its first guard returns without a word and without touching the
  session; the second prints one line.
\<close>

definition process_ban ::
  "random_src \<Rightarrow> string \<Rightarrow> string option \<Rightarrow> string option \<Rightarrow> int \<Rightarrow> waiting_attr \<Rightarrow>
   waiting_attr option \<Rightarrow> bool \<Rightarrow> session \<Rightarrow> completion \<times> effect list \<times> session" where
  "process_ban r full_stage_name banner next_banner line_index waiting next_waiting is_final_ban s =
     (if \<not> draft_active s \<or> \<not> getattr_waiting s waiting then (Returned, [], s)
      else case banner of
        None \<Rightarrow> (Returned, [Print ''Error: banner is None in _process_ban.''], s)
      | Some b \<Rightarrow>
          (let s1 = s\<lparr>banned_stages := banned_stages s @ [full_stage_name]\<rparr>
           in case set_output_line line_index full_stage_name s1 of
                Inl e \<Rightarrow> (Raised e, [], s1)
              | Inr s2 \<Rightarrow>
                  (case set_output_line 0 (b @ '' banned '' @ full_stage_name) s2 of
                     Inl e \<Rightarrow> (Raised e, [write_draft_status s2], s2)
                   | Inr s3 \<Rightarrow>
                       (let e0 = [write_draft_status s2, write_draft_status s3]
                                 @ (if countdown_channel s3 \<noteq> None
                                    then [Send (ban_message full_stage_name next_banner is_final_ban)]
                                    else [])
                        in case (case next_banner of
                                   Some nb \<Rightarrow>
                                     if \<not> is_final_ban
                                     then switch_turns full_stage_name b nb waiting next_waiting s3
                                     else conclude_draft r full_stage_name b s3
                                 | None \<Rightarrow> conclude_draft r full_stage_name b s3) of
                             (c, e1, s') \<Rightarrow> (c, e0 @ e1, s')))))"

definition process_ban1 :: "random_src \<Rightarrow> string \<Rightarrow> session \<Rightarrow> completion \<times> effect list \<times> session" where
  "process_ban1 r full_stage_name s =
     process_ban r full_stage_name (first_banner s) (second_banner s)
       (if first_banner s = runner1 s then 1 else 2)
       Waiting_for_ban1 (Some Waiting_for_ban2) False s"

definition process_ban2 :: "random_src \<Rightarrow> string \<Rightarrow> session \<Rightarrow> completion \<times> effect list \<times> session" where
  "process_ban2 r full_stage_name s =
     process_ban r full_stage_name (second_banner s) None
       (if second_banner s = runner1 s then 1 else 2)
       Waiting_for_ban2 None True s"

subsection \<open>\<open>console_input_loop\<close>\<close>

text \<open>Lines 367-372: one line for every stage that is not banned.\<close>

fun available_stages :: "(string, string list) dict \<Rightarrow> string list \<Rightarrow> effect list" where
  "available_stages [] banned = []"
| "available_stages ((name, abbrs) # rest) banned =
     (if name \<notin> set banned
      then Print (''- '' @ name @ '' ('' @ (case abbrs of [] \<Rightarrow> [] | a # _ \<Rightarrow> a) @ '')'')
           # available_stages rest banned
      else available_stages rest banned)"

text \<open>Lines 359-375: what is printed before the line is read.\<close>

definition prompt_for_ban :: "session \<Rightarrow> effect list" where
  "prompt_for_ban s =
     [Print ([CHR 0x0A] @ ''Waiting for '' @ (if waiting_for_ban1 s then ''first'' else ''second'')
             @ '' stage ban...''),
      Print (''Enter stage name or abbreviation for '' @ fmt_opt (current_turn s) @ '' to ban:''),
      Print ([CHR 0x0A] @ ''Available stages:'')]
     @ available_stages STAGES (banned_stages s)
     @ [Print ''> '']"

text \<open>
  One turn of \<open>console_input_loop\<close> on the line read from the console, after \<open>strip()\<close>.
  When the draft is not active the loop has ended, and when no ban is awaited the turn
  only sleeps.  An exception of the coroutine is caught and printed (lines 396-409), and
  the loop goes on.
\<close>

definition console_input_step :: "random_src \<Rightarrow> string \<Rightarrow> session \<Rightarrow> effect list \<times> session" where
  "console_input_step r stage_input s =
     (if \<not> draft_active s then ([], s)
      else if waiting_for_ban1 s \<or> waiting_for_ban2 s then
        (case resolve_stage_name stage_input of
           None \<Rightarrow> (prompt_for_ban s @ [Print ''Invalid stage name. Please try again.''], s)
         | Some full_stage_name \<Rightarrow>
             if full_stage_name = []
             then (prompt_for_ban s @ [Print ''Invalid stage name. Please try again.''], s)
             else if full_stage_name \<in> set (banned_stages s)
             then (prompt_for_ban s
                   @ [Print (full_stage_name @ '' has already been banned. Please choose another stage.'')],
                   s)
             else if waiting_for_ban1 s then
               (case process_ban1 r full_stage_name s of
                  (c, e, s') \<Rightarrow>
                    (prompt_for_ban s @ e
                     @ (case c of Returned \<Rightarrow> [] | Raised x \<Rightarrow> [PrintError ''Error processing ban1: '' x]),
                     s'))
             else
               (case process_ban2 r full_stage_name s of
                  (c, e, s') \<Rightarrow>
                    (prompt_for_ban s @ e
                     @ (case c of Returned \<Rightarrow> [] | Raised x \<Rightarrow> [PrintError ''Error processing ban2: '' x]),
                     s')))
      else ([], s))"

subsection \<open>\<open>_handle_start_command\<close>\<close>

text \<open>
  \<open>roles\<close> are the names of the author's roles, \<open>tokens\<close> the words of the message, and
  \<open>channel\<close> the handle of the message's channel when it is a text channel.
\<close>

definition handle_start_command ::
  "random_src \<Rightarrow> string list \<Rightarrow> string list \<Rightarrow> nat option \<Rightarrow> session
   \<Rightarrow> completion \<times> effect list \<times> session" where
  "handle_start_command r roles tokens channel s =
     (if \<not> list_ex (\<lambda>role. lower role = ''hunting drafter'') roles
      then (Returned, [Reply ''You need the Hunting Drafter role to use this command.''], s)
      else case tokens of
        [command, name1, name2] \<Rightarrow>
          if length name1 \<ge> 10 \<or> length name2 \<ge> 10
          then (Returned, [Reply ''Runner names must be less than 10 characters long.''], s)
          else
            (let s0 = reset s;
                 s1 = s0\<lparr>runner1 := Some name1, runner2 := Some name2,
                          draft_active := True, countdown_channel := channel\<rparr>
             in case set_output_line 0 ''The draft is starting!'' s1 of
                  Inl e \<Rightarrow> (Raised e, [write_draft_status s0], s1)
                | Inr s2 \<Rightarrow>
                    (let coin_flip = choice_fn r [0, 1];
                         s3 = (if coin_flip = 0
                               then s2\<lparr>first_banner := runner1 s2, second_banner := runner2 s2\<rparr>
                               else s2\<lparr>first_banner := runner2 s2, second_banner := runner1 s2\<rparr>);
                         s4 = s3\<lparr>current_turn := first_banner s3\<rparr>;
                         e0 = [write_draft_status s0, write_draft_status s2,
                               Reply ''Who will ban first!?'', Reply ''3...'', Reply ''2...'', Reply ''1...'',
                               Reply (fmt_opt (first_banner s4)
                                      @ '' bans first! Please type which stage you would like to ban.'')]
                     in case set_output_line 0 (fmt_opt (first_banner s4) @ [CHR 0x27] @ ''s turn to ban'') s4 of
                          Inl e \<Rightarrow> (Raised e, e0, s4)
                        | Inr s5 \<Rightarrow>
                            (Returned,
                             e0 @ [write_draft_status s5,
                                   Print ([CHR 0x0A] @ fmt_opt (first_banner s5) @ '' bans first!'')],
                             s5\<lparr>waiting_for_ban1 := True\<rparr>)))
      | _ \<Rightarrow> (Returned, [Reply ''Usage: !start <Runner Name 1> <Runner Name 2>''], s))"

subsection \<open>Example runs\<close>

text \<open>
  \<open>!start Alice Bob\<close> by a drafter in channel 0, then \<open>WC\<close> and \<open>pumpkin\<close> typed at the
  console.
\<close>

definition started :: session where
  "started = snd (snd (handle_start_command rng_keep [''Hunting Drafter''] [''!start'', ''Alice'', ''Bob''] (Some 0) init_session))"

definition after_first_ban :: session where
  "after_first_ban = snd (console_input_step rng_keep ''WC'' started)"

definition concluded :: session where
  "concluded = snd (console_input_step rng_keep ''pumpkin'' after_first_ban)"

text \<open>
  \<open>!start a/b Bob\<close> by a drafter in channel 0, then \<open>WC\<close>, \<open>pumpkin\<close> and \<open>dc\<close> typed at the
  console.
\<close>

definition slash_started :: session where
  "slash_started = snd (snd (handle_start_command rng_keep [''Hunting Drafter''] [''!start'', ''a/b'', ''Bob''] (Some 0) init_session))"

definition slash_first :: session where
  "slash_first = snd (console_input_step rng_keep ''WC'' slash_started)"

definition slash_second :: session where
  "slash_second = snd (console_input_step rng_keep ''pumpkin'' slash_first)"

definition slash_third :: session where
  "slash_third = snd (console_input_step rng_keep ''dc'' slash_second)"

text \<open>What the guards of the ban flow read of a session: the recorded bans and the three flags.\<close>

definition ban_state :: "session \<Rightarrow> string list \<times> bool \<times> bool \<times> bool" where
  "ban_state s = (banned_stages s, draft_active s, waiting_for_ban1 s, waiting_for_ban2 s)"

section \<open>Facts about the Python values\<close>

lemma digit_nth_is_digit: "d < 10 \<Longrightarrow> is_digit (''0123456789'' ! d)"
  unfolding is_digit_def by (rule nth_mem) simp

lemma digit_val_nth: "d < 10 \<Longrightarrow> digit_val (''0123456789'' ! d) = d"
proof -
  assume "d < 10"
  then have "d \<in> set [0..<10]" by simp
  moreover have "\<forall>d \<in> set [0..<10]. digit_val (''0123456789'' ! d) = d"
    by code_simp
  ultimately show ?thesis by blast
qed

lemma str_nat_nonempty: "str_nat n \<noteq> []"
  by (subst str_nat.simps) simp

lemma str_nat_digits: "list_all is_digit (str_nat n)"
proof (induction n rule: str_nat.induct)
  case (1 n)
  show ?case
  proof (cases "n < 10")
    case True
    then show ?thesis by (subst str_nat.simps) (simp add: digit_nth_is_digit)
  next
    case False
    with 1 show ?thesis by (subst str_nat.simps) (simp add: digit_nth_is_digit)
  qed
qed

lemma str_nat_value: "foldl (\<lambda>acc c. 10 * acc + digit_val c) 0 (str_nat n) = n"
proof (induction n rule: str_nat.induct)
  case (1 n)
  show ?case
  proof (cases "n < 10")
    case True
    then show ?thesis by (subst str_nat.simps) (simp add: digit_val_nth)
  next
    case False
    with 1 show ?thesis by (subst str_nat.simps) (simp add: digit_val_nth)
  qed
qed

lemma py_int_py_str: "0 \<le> i \<Longrightarrow> py_int (py_str i) = Inr i"
  by (simp add: py_int_def py_str_def str_nat_nonempty str_nat_digits str_nat_value)

lemma py_int_zero: "py_int ''0'' = Inr 0"
  using py_int_py_str [of 0] by (simp add: py_str_def str_nat.simps)

lemma dict_set_fresh: "k \<notin> fst ` set d \<Longrightarrow> dict_set d k v = d @ [(k, v)]"
  by (induction d) auto

lemma ban_pass_fresh:
  assumes "\<And>st. st \<in> set xs \<Longrightarrow> map_of A st = Some (ab st)"
    and "distinct (map ab xs)" and "ab ` set xs \<inter> fst ` set d = {}"
  shows "ban_pass A xs d = d @ map (\<lambda>st. (ab st, ''0'')) xs"
  using assms
proof (induction xs arbitrary: d)
  case Nil
  then show ?case by simp
next
  case (Cons x xs)
  have fresh: "ab x \<notin> fst ` set d" using Cons.prems(3) by auto
  have "ban_pass A (x # xs) d = ban_pass A xs (d @ [(ab x, ''0'')])"
    using Cons.prems(1) fresh by (simp add: dict_set_fresh)
  also have "\<dots> = (d @ [(ab x, ''0'')]) @ map (\<lambda>st. (ab st, ''0'')) xs"
  proof (rule Cons.IH)
    show "\<And>st. st \<in> set xs \<Longrightarrow> map_of A st = Some (ab st)" using Cons.prems(1) by simp
    show "distinct (map ab xs)" using Cons.prems(2) by simp
    show "ab ` set xs \<inter> fst ` set (d @ [(ab x, ''0'')]) = {}"
      using Cons.prems(2,3) by auto
  qed
  finally show ?case by simp
qed

lemma rank_pass_fresh:
  assumes "\<And>st. st \<in> set xs \<Longrightarrow> map_of A st = Some (ab st)"
    and "distinct (map ab xs)" and "ab ` set xs \<inter> fst ` set d = {}"
  shows "rank_pass A (enumerate n xs) d
         = d @ map (\<lambda>(i, st). (ab st, py_str (int i + 1))) (enumerate n xs)"
  using assms
proof (induction xs arbitrary: d n)
  case Nil
  then show ?case by simp
next
  case (Cons x xs)
  have fresh: "ab x \<notin> fst ` set d" using Cons.prems(3) by auto
  have "rank_pass A (enumerate n (x # xs)) d
        = rank_pass A (enumerate (Suc n) xs) (d @ [(ab x, py_str (int n + 1))])"
    using Cons.prems(1) fresh by (simp add: dict_set_fresh)
  also have "\<dots> = (d @ [(ab x, py_str (int n + 1))])
                     @ map (\<lambda>(i, st). (ab st, py_str (int i + 1))) (enumerate (Suc n) xs)"
  proof (rule Cons.IH)
    show "\<And>st. st \<in> set xs \<Longrightarrow> map_of A st = Some (ab st)" using Cons.prems(1) by simp
    show "distinct (map ab xs)" using Cons.prems(2) by simp
    show "ab ` set xs \<inter> fst ` set (d @ [(ab x, py_str (int n + 1))]) = {}"
      using Cons.prems(2,3) by auto
  qed
  finally show ?case by simp
qed

lemma fill_pass_full:
  "(\<And>st. st \<in> set xs \<Longrightarrow> \<exists>a. map_of A st = Some a \<and> dict_has d a) \<Longrightarrow> fill_pass A xs d = Inr d"
proof (induction xs)
  case Nil
  then show ?case by simp
next
  case (Cons x xs)
  obtain a where "map_of A x = Some a" "dict_has d a"
    using Cons.prems [of x] by auto
  moreover have "fill_pass A xs d = Inr d"
    by (rule Cons.IH) (simp add: Cons.prems)
  ultimately show ?case by simp
qed

lemma build_ordered_map:
  "(\<And>a v. (a, v) \<in> set d \<Longrightarrow> map_of R a = Some (st_of a) \<and> py_int v = Inr (val v)) \<Longrightarrow>
   build_ordered R d = Inr (map (\<lambda>(a, v). (st_of a, val v, a)) d)"
proof (induction d)
  case Nil
  then show ?case by simp
next
  case (Cons p d)
  obtain a v where p: "p = (a, v)" by (cases p)
  have "map_of R a = Some (st_of a)" "py_int v = Inr (val v)"
    using Cons.prems [of a v] p by simp_all
  moreover have "build_ordered R d = Inr (map (\<lambda>(a, v). (st_of a, val v, a)) d)"
    using Cons.prems by (intro Cons.IH) auto
  ultimately show ?case using p by simp
qed

lemma order_dict_rebuild:
  "distinct (map (\<lambda>(n, v, a). a) os) \<Longrightarrow> fst ` set d \<inter> (\<lambda>(n, v, a). a) ` set os = {} \<Longrightarrow>
   foldl (\<lambda>d (stage_name, order_value, abbr). dict_set d abbr (py_str order_value)) d os
   = d @ map (\<lambda>(n, v, a). (a, py_str v)) os"
proof (induction os arbitrary: d)
  case Nil
  then show ?case by simp
next
  case (Cons p os)
  obtain n v a where p: "p = (n, v, a)" by (cases p)
  have fresh: "a \<notin> fst ` set d" using Cons.prems(2) p by auto
  have "fst ` set (d @ [(a, py_str v)]) \<inter> (\<lambda>(n, v, a). a) ` set os = {}"
    using Cons.prems p by auto
  with Cons.IH [of "d @ [(a, py_str v)]"] Cons.prems(1) p fresh show ?case
    by (simp add: dict_set_fresh)
qed

section \<open>Stage resolution\<close>

lemma exact_pass_None:
  "(\<forall>(name, abbrs) \<in> set cat. x \<noteq> lower name) \<Longrightarrow> exact_pass x cat = None"
  by (induction cat) auto

lemma exact_pass_Some:
  "distinct (map (\<lambda>(name, abbrs). lower name) cat) \<Longrightarrow> (name, abbrs) \<in> set cat \<Longrightarrow>
   x = lower name \<Longrightarrow> exact_pass x cat = Some name"
  by (induction cat) (auto simp: rev_image_eqI)

lemma alias_pass_None:
  "(\<forall>(name, abbrs) \<in> set cat. x \<notin> set (map lower abbrs)) \<Longrightarrow> alias_pass x cat = None"
  by (induction cat) auto

lemma alias_pass_Some:
  "distinct (concat (map (\<lambda>(name, abbrs). map lower abbrs) cat)) \<Longrightarrow>
   distinct (map fst cat) \<Longrightarrow> (name, abbrs) \<in> set cat \<Longrightarrow>
   x \<in> set (map lower abbrs) \<Longrightarrow> alias_pass x cat = Some name"
proof (induction cat)
  case Nil
  then show ?case by simp
next
  case (Cons p cat)
  obtain n al where p: "p = (n, al)" by (cases p)
  show ?case
  proof (cases "x \<in> set (map lower al)")
    case True
    have "(name, abbrs) \<notin> set cat"
    proof
      assume "(name, abbrs) \<in> set cat"
      then have "x \<in> set (concat (map (\<lambda>(name, abbrs). map lower abbrs) cat))"
        using Cons.prems(4) by force
      with True Cons.prems(1) p show False by auto
    qed
    with Cons.prems(3) p True show ?thesis by simp
  next
    case False
    with Cons p show ?thesis by auto
  qed
qed

lemma STAGES_lower_names_distinct: "distinct (map (\<lambda>(name, abbrs). lower name) STAGES)"
  by code_simp

lemma STAGES_lower_aliases_distinct:
  "distinct (concat (map (\<lambda>(name, abbrs). map lower abbrs) STAGES))"
  by code_simp

lemma STAGES_names_distinct: "distinct (map fst STAGES)"
  by code_simp

text \<open>
  C8.  \<open>resolve_stage_name\<close> follows exactly two passes, both on the lower-cased input:
  a stage whose lower-cased canonical name equals the input is returned; when no canonical
  name matches, a stage one of whose lower-cased aliases equals the input is returned;
  when neither matches any stage the result is \<open>None\<close>.  The three cases cover every input,
  so nothing else (no prefix, substring or approximate match) ever resolves, and the
  result is a function of the input text and the constant \<open>STAGES\<close> alone.
\<close>

theorem resolve_stage_name_policy:
  "(\<forall>name abbrs. (name, abbrs) \<in> set STAGES \<and> lower x = lower name
       \<longrightarrow> resolve_stage_name x = Some name)
   \<and> ((\<forall>(name, abbrs) \<in> set STAGES. lower x \<noteq> lower name) \<longrightarrow>
        (\<forall>name abbrs. (name, abbrs) \<in> set STAGES \<and> lower x \<in> set (map lower abbrs)
           \<longrightarrow> resolve_stage_name x = Some name))
   \<and> ((\<forall>(name, abbrs) \<in> set STAGES. lower x \<noteq> lower name \<and> lower x \<notin> set (map lower abbrs))
        \<longrightarrow> resolve_stage_name x = None)"
proof (intro conjI allI impI)
  fix name abbrs
  assume "(name, abbrs) \<in> set STAGES \<and> lower x = lower name"
  then have "exact_pass (lower x) STAGES = Some name"
    using exact_pass_Some [OF STAGES_lower_names_distinct] by blast
  then show "resolve_stage_name x = Some name"
    by (simp add: resolve_stage_name_def)
next
  fix name abbrs
  assume no_exact: "\<forall>(name, abbrs) \<in> set STAGES. lower x \<noteq> lower name"
    and hit: "(name, abbrs) \<in> set STAGES \<and> lower x \<in> set (map lower abbrs)"
  have "exact_pass (lower x) STAGES = None"
    using no_exact by (rule exact_pass_None)
  moreover have "alias_pass (lower x) STAGES = Some name"
    using alias_pass_Some [OF STAGES_lower_aliases_distinct STAGES_names_distinct] hit by blast
  ultimately show "resolve_stage_name x = Some name"
    by (simp add: resolve_stage_name_def)
next
  assume none: "\<forall>(name, abbrs) \<in> set STAGES. lower x \<noteq> lower name \<and> lower x \<notin> set (map lower abbrs)"
  have "exact_pass (lower x) STAGES = None"
    using none by (intro exact_pass_None) auto
  moreover have "alias_pass (lower x) STAGES = None"
    using none by (intro alias_pass_None) auto
  ultimately show "resolve_stage_name x = None"
    by (simp add: resolve_stage_name_def)
qed

theorem resolve_stage_name_policy_witness:
  "resolve_stage_name ''wild CANYON'' = Some ''Wild Canyon''
   \<and> resolve_stage_name ''Pumpkin'' = Some ''Pumpkin Hill''
   \<and> resolve_stage_name ''pump'' = None"
proof -
  have exact: "(''Wild Canyon'', [''WC'', ''wild'', ''canyon'']) \<in> set STAGES
               \<and> lower ''wild CANYON'' = lower ''Wild Canyon''"
    by code_simp
  have no_exact: "\<forall>(name, abbrs) \<in> set STAGES. lower ''Pumpkin'' \<noteq> lower name"
    by code_simp
  have by_alias: "(''Pumpkin Hill'', [''PH'', ''pumpkin'', ''hill'']) \<in> set STAGES
               \<and> lower ''Pumpkin'' \<in> set (map lower [''PH'', ''pumpkin'', ''hill''])"
    by code_simp
  have none: "\<forall>(name, abbrs) \<in> set STAGES.
                lower ''pump'' \<noteq> lower name \<and> lower ''pump'' \<notin> set (map lower abbrs)"
    by code_simp
  from resolve_stage_name_policy [of "''wild CANYON''"] exact
  have "resolve_stage_name ''wild CANYON'' = Some ''Wild Canyon''" by blast
  moreover from resolve_stage_name_policy [of "''Pumpkin''"] no_exact by_alias
  have "resolve_stage_name ''Pumpkin'' = Some ''Pumpkin Hill''" by blast
  moreover from resolve_stage_name_policy [of "''pump''"] none
  have "resolve_stage_name ''pump'' = None" by blast
  ultimately show ?thesis by blast
qed

section \<open>The catalog\<close>

lemma abbr_pass_STAGE_NAMES: "abbr_pass STAGE_NAMES [] = Inr stage_abbrs_value"
  by code_simp

lemma STAGE_NAMES_distinct: "distinct STAGE_NAMES"
  by code_simp

lemma length_STAGE_NAMES: "length STAGE_NAMES = 9"
  by code_simp

lemma abbr_of_distinct: "distinct (map abbr_of STAGE_NAMES)"
  by code_simp

lemma stage_abbrs_lookup_all: "\<forall>st \<in> set STAGE_NAMES. map_of stage_abbrs_value st = Some (abbr_of st)"
  by code_simp

lemma reverse_lookup_all:
  "\<forall>st \<in> set STAGE_NAMES. map_of (reverse_abbrs stage_abbrs_value) (abbr_of st) = Some st"
  by code_simp

lemma stage_abbrs_lookup: "st \<in> set STAGE_NAMES \<Longrightarrow> map_of stage_abbrs_value st = Some (abbr_of st)"
  using stage_abbrs_lookup_all by blast

lemma reverse_lookup:
  "st \<in> set STAGE_NAMES \<Longrightarrow> map_of (reverse_abbrs stage_abbrs_value) (abbr_of st) = Some st"
  using reverse_lookup_all by blast

lemma abbr_of_inj: "inj_on abbr_of (set STAGE_NAMES)"
  using abbr_of_distinct by (simp add: distinct_map)

lemma abbr_of_distinct_sub:
  "distinct xs \<Longrightarrow> set xs \<subseteq> set STAGE_NAMES \<Longrightarrow> distinct (map abbr_of xs)"
  using abbr_of_inj by (auto simp: distinct_map intro: inj_on_subset)

lemma abbr_of_disjoint:
  "set xs \<subseteq> set STAGE_NAMES \<Longrightarrow> set ys \<subseteq> set STAGE_NAMES \<Longrightarrow> set xs \<inter> set ys = {} \<Longrightarrow>
   abbr_of ` set xs \<inter> abbr_of ` set ys = {}"
  using abbr_of_inj by (auto simp: inj_on_def) blast

subsection \<open>The remaining stages\<close>

lemma remaining_of_distinct: "distinct (remaining_of banned)"
  by (simp add: remaining_of_def STAGE_NAMES_distinct)

lemma remaining_of_set: "set (remaining_of banned) = set STAGE_NAMES - set banned"
  by (auto simp: remaining_of_def)

lemma remaining_of_length_ge: "9 - length banned \<le> length (remaining_of banned)"
proof -
  let ?inb = "filter (\<lambda>stage. \<not> stage \<notin> set banned) STAGE_NAMES"
  have "distinct ?inb" by (simp add: STAGE_NAMES_distinct)
  then have "length ?inb = card (set ?inb)" by (rule distinct_card [symmetric])
  also have "\<dots> \<le> card (set banned)" by (rule card_mono) auto
  also have "\<dots> \<le> length banned" by (rule card_length)
  finally have "length ?inb \<le> length banned" .
  moreover have "length (remaining_of banned) + length ?inb = length STAGE_NAMES"
    unfolding remaining_of_def by (rule sum_length_filter_compl)
  ultimately show ?thesis by (simp add: length_STAGE_NAMES)
qed

lemma remaining_of_length_eq:
  assumes "distinct banned" "set banned \<subseteq> set STAGE_NAMES"
  shows "length (remaining_of banned) = 9 - length banned"
proof -
  have "length (remaining_of banned) = card (set STAGE_NAMES - set banned)"
    using distinct_card [OF remaining_of_distinct, of banned] by (simp add: remaining_of_set)
  also have "\<dots> = card (set STAGE_NAMES) - card (set banned)"
    using assms(2) by (simp add: card_Diff_subset)
  also have "\<dots> = 9 - length banned"
    using assms(1) by (simp add: distinct_card STAGE_NAMES_distinct length_STAGE_NAMES)
  finally show ?thesis .
qed

subsection \<open>The shuffle and the swap\<close>

lemma shuffled_facts:
  assumes "rng_ok r"
  shows "mset (shuffle_fn r (remaining_of banned)) = mset (remaining_of banned)"
    and "distinct (shuffle_fn r (remaining_of banned))"
    and "set (shuffle_fn r (remaining_of banned)) = set STAGE_NAMES - set banned"
    and "length (shuffle_fn r (remaining_of banned)) = length (remaining_of banned)"
proof -
  show m: "mset (shuffle_fn r (remaining_of banned)) = mset (remaining_of banned)"
    using assms by (simp add: rng_ok_def)
  show "distinct (shuffle_fn r (remaining_of banned))"
    using mset_eq_imp_distinct_iff [OF m] remaining_of_distinct by simp
  show "set (shuffle_fn r (remaining_of banned)) = set STAGE_NAMES - set banned"
    using mset_eq_setD [OF m] by (simp add: remaining_of_set)
  show "length (shuffle_fn r (remaining_of banned)) = length (remaining_of banned)"
    using mset_eq_length [OF m] .
qed

text \<open>What \<open>shuffle_remaining\<close> returns when at least two stages remain.\<close>

lemma shuffle_remaining_eq:
  assumes ok: "rng_ok r" and len: "2 \<le> length (remaining_of banned)"
  shows "shuffle_remaining r banned =
           Inr (let sh = shuffle_fn r (remaining_of banned);
                    k = nat (randint_fn r 1 (int (length sh) - 1))
                in if sh ! 0 = ''Security Hall'' then sh[0 := sh ! k, k := ''Security Hall''] else sh)"
    and "1 \<le> randint_fn r 1 (int (length (shuffle_fn r (remaining_of banned))) - 1)"
    and "randint_fn r 1 (int (length (shuffle_fn r (remaining_of banned))) - 1)
           \<le> int (length (shuffle_fn r (remaining_of banned))) - 1"
proof -
  let ?sh = "shuffle_fn r (remaining_of banned)"
  let ?k = "randint_fn r 1 (int (length ?sh) - 1)"
  have l: "2 \<le> length ?sh" using len shuffled_facts(4) [OF ok] by simp
  then have range: "(1::int) \<le> int (length ?sh) - 1" by simp
  have "1 \<le> ?k \<and> ?k \<le> int (length ?sh) - 1"
    using ok range unfolding rng_ok_def by blast
  then show k1: "1 \<le> ?k" and k2: "?k \<le> int (length ?sh) - 1"
    by simp_all
  have ri: "randint r 1 (int (length ?sh) - 1) = Inr ?k"
    using range by (simp add: randint_def)
  have pi: "py_index (length ?sh) ?k = Some (nat ?k)"
    using k1 k2 by (simp add: py_index_def)
  obtain first rest where sh: "?sh = first # rest"
    using l by (cases ?sh) auto
  show "shuffle_remaining r banned =
           Inr (let sh = shuffle_fn r (remaining_of banned);
                    k = nat (randint_fn r 1 (int (length sh) - 1))
                in if sh ! 0 = ''Security Hall'' then sh[0 := sh ! k, k := ''Security Hall''] else sh)"
    unfolding shuffle_remaining_def Let_def
    using ri pi by (simp add: sh)
qed

lemma shuffle_remaining_props:
  assumes ok: "rng_ok r" and len: "2 \<le> length (remaining_of banned)"
  shows "\<exists>arr. shuffle_remaining r banned = Inr arr \<and> mset arr = mset (remaining_of banned)
               \<and> arr ! 0 \<noteq> ''Security Hall''"
proof -
  let ?sh = "shuffle_fn r (remaining_of banned)"
  let ?k = "nat (randint_fn r 1 (int (length ?sh) - 1))"
  let ?arr = "if ?sh ! 0 = ''Security Hall'' then ?sh[0 := ?sh ! ?k, ?k := ''Security Hall''] else ?sh"
  note facts = shuffled_facts [OF ok, of banned]
  note sr = shuffle_remaining_eq [OF ok len]
  have l: "2 \<le> length ?sh" using len facts(4) by simp
  have l0: "0 < length ?sh" using l by linarith
  have k0: "0 < ?k" and kl: "?k < length ?sh" using sr(2,3) l by simp_all
  have eq: "shuffle_remaining r banned = Inr ?arr"
    using sr(1) by (simp add: Let_def)
  have "mset ?arr = mset (remaining_of banned)"
  proof (cases "?sh ! 0 = ''Security Hall''")
    case True
    have "mset (?sh[0 := ?sh ! ?k, ?k := ?sh ! 0]) = mset ?sh"
      using kl l by (intro mset_swap) auto
    with True facts(1) show ?thesis by simp
  next
    case False
    with facts(1) show ?thesis by simp
  qed
  moreover have "?arr ! 0 \<noteq> ''Security Hall''"
  proof (cases "?sh ! 0 = ''Security Hall''")
    case True
    from facts(2) kl l0 have "(?sh ! ?k = ?sh ! 0) = (?k = 0)"
      by (rule nth_eq_iff_index_eq)
    with k0 have "?sh ! ?k \<noteq> ?sh ! 0" by simp
    with True k0 kl l0 show ?thesis by (simp add: nth_list_update)
  next
    case False
    then show ?thesis by simp
  qed
  ultimately show ?thesis using eq by blast
qed

subsection \<open>The shape of the generated ordering\<close>

lemma enumerate_snd_mem: "(i, st) \<in> set (enumerate n xs) \<Longrightarrow> st \<in> set xs"
  by (metis in_set_zipE enumerate_eq_zip)

text \<open>The triples for the banned stages and for the arranged remaining stages.\<close>

lemma generate_ordered_stages_shape:
  assumes dist: "distinct (banned_stages s)" and sub: "set (banned_stages s) \<subseteq> set STAGE_NAMES"
    and arr: "shuffle_remaining r (banned_stages s) = Inr arr"
    and marr: "mset arr = mset (remaining_of (banned_stages s))"
  shows "generate_ordered_stages r s =
           Inr (s\<lparr>ordered_stages :=
                     map (\<lambda>st. (st, 0, abbr_of st)) (banned_stages s)
                     @ map (\<lambda>(i, st). (st, int i + 1, abbr_of st)) (enumerate 0 arr)\<rparr>,
                map (\<lambda>st. (st, 0, abbr_of st)) (banned_stages s)
                @ map (\<lambda>(i, st). (st, int i + 1, abbr_of st)) (enumerate 0 arr),
                stage_abbrs_value)"
proof -
  let ?A = stage_abbrs_value
  let ?b = "banned_stages s"
  let ?d1 = "map (\<lambda>st. (abbr_of st, ''0'')) ?b"
  let ?d2 = "?d1 @ map (\<lambda>(i, st). (abbr_of st, py_str (int i + 1))) (enumerate 0 arr)"
  have darr: "distinct arr"
    using mset_eq_imp_distinct_iff [OF marr] remaining_of_distinct by simp
  have sarr: "set arr = set STAGE_NAMES - set ?b"
    using mset_eq_setD [OF marr] by (simp add: remaining_of_set)
  then have arr_sub: "set arr \<subseteq> set STAGE_NAMES" and arr_disj: "set arr \<inter> set ?b = {}"
    by auto
  have ban: "ban_pass ?A ?b [] = ?d1"
    using ban_pass_fresh [of ?b ?A abbr_of "[]"] sub dist
    by (simp add: stage_abbrs_lookup subsetD abbr_of_distinct_sub)
  have keys1: "fst ` set ?d1 = abbr_of ` set ?b" by force
  have rank: "rank_pass ?A (enumerate 0 arr) ?d1 = ?d2"
  proof (rule rank_pass_fresh)
    show "\<And>st. st \<in> set arr \<Longrightarrow> map_of ?A st = Some (abbr_of st)"
      using arr_sub by (auto intro: stage_abbrs_lookup)
    show "distinct (map abbr_of arr)"
      using darr arr_sub by (rule abbr_of_distinct_sub)
    show "abbr_of ` set arr \<inter> fst ` set ?d1 = {}"
      unfolding keys1 using arr_sub sub arr_disj by (rule abbr_of_disjoint)
  qed
  have keys2: "fst ` set ?d2 = abbr_of ` set ?b \<union> abbr_of ` set arr"
  proof -
    have "fst ` set (map (\<lambda>(i, st). (abbr_of st, py_str (int i + 1))) (enumerate 0 arr))
          = abbr_of ` snd ` set (enumerate 0 arr)"
      by force
    also have "snd ` set (enumerate 0 arr) = set arr"
      using map_snd_enumerate [of 0 arr] by (metis set_map)
    finally show ?thesis using keys1 by (simp add: image_Un)
  qed
  have fill: "fill_pass ?A STAGE_NAMES ?d2 = Inr ?d2"
  proof (rule fill_pass_full)
    fix st assume st: "st \<in> set STAGE_NAMES"
    then have "st \<in> set ?b \<or> st \<in> set arr" using sarr by auto
    then have "abbr_of st \<in> fst ` set ?d2" unfolding keys2 by auto
    with st show "\<exists>a. map_of ?A st = Some a \<and> dict_has ?d2 a"
      by (auto simp: stage_abbrs_lookup dict_has_def)
  qed
  let ?st_of = "\<lambda>a. case map_of (reverse_abbrs ?A) a of None \<Rightarrow> [] | Some st \<Rightarrow> st"
  let ?val = "\<lambda>v. case py_int v of Inl e \<Rightarrow> 0 | Inr n \<Rightarrow> n"
  have st_of: "\<And>st. st \<in> set STAGE_NAMES \<Longrightarrow> ?st_of (abbr_of st) = st"
    by (simp add: reverse_lookup)
  have val0: "?val ''0'' = 0" by (simp add: py_int_zero)
  have vali: "\<And>i::nat. ?val (py_str (int i + 1)) = int i + 1" by (simp add: py_int_py_str)
  have build: "build_ordered (reverse_abbrs ?A) ?d2 = Inr (map (\<lambda>(a, v). (?st_of a, ?val v, a)) ?d2)"
  proof (rule build_ordered_map)
    fix a v assume "(a, v) \<in> set ?d2"
    then consider st where "st \<in> set ?b" "a = abbr_of st" "v = ''0''"
      | i st where "st \<in> set arr" "a = abbr_of st" "v = py_str (int i + 1)"
      by (auto dest: enumerate_snd_mem)
    then show "map_of (reverse_abbrs ?A) a = Some (?st_of a) \<and> py_int v = Inr (?val v)"
    proof cases
      case 1
      then show ?thesis using sub by (auto simp: reverse_lookup py_int_zero)
    next
      case 2
      then show ?thesis using arr_sub by (auto simp: reverse_lookup py_int_py_str)
    qed
  qed
  have m1: "map (\<lambda>(a, v). (?st_of a, ?val v, a)) ?d1 = map (\<lambda>st. (st, 0, abbr_of st)) ?b"
    using sub by (auto simp: reverse_lookup py_int_zero)
  have m2: "map (\<lambda>(a, v). (?st_of a, ?val v, a))
                (map (\<lambda>(i, st). (abbr_of st, py_str (int i + 1))) (enumerate 0 arr))
            = map (\<lambda>(i, st). (st, int i + 1, abbr_of st)) (enumerate 0 arr)"
    using arr_sub by (auto simp: reverse_lookup py_int_py_str dest!: enumerate_snd_mem)
  have os: "map (\<lambda>(a, v). (?st_of a, ?val v, a)) ?d2
            = map (\<lambda>st. (st, 0, abbr_of st)) ?b
              @ map (\<lambda>(i, st). (st, int i + 1, abbr_of st)) (enumerate 0 arr)"
    using m1 m2 by simp
  show ?thesis
    unfolding generate_ordered_stages_def
    by (simp only: abbr_pass_STAGE_NAMES arr ban rank fill build os sum.case)
qed

lemma enum_proj:
  "map snd (map (\<lambda>(i, st). (st, int i + 1)) (enumerate n arr)) = map (\<lambda>i. int i + 1) [n..<n + length arr]"
  "map fst (map (\<lambda>(i, st). (st, int i + 1)) (enumerate n arr)) = arr"
  "map fst (map (\<lambda>(i, st). (st, int i + 1, ab st)) (enumerate n arr)) = arr"
proof -
  have a: "snd \<circ> (\<lambda>(i, st). (st, int i + 1)) = (\<lambda>i. int i + 1) \<circ> (fst :: nat \<times> 'a \<Rightarrow> nat)"
    by (auto simp: fun_eq_iff)
  have b: "fst \<circ> (\<lambda>(i, st). (st, int i + 1)) = (snd :: nat \<times> 'a \<Rightarrow> 'a)"
    by (auto simp: fun_eq_iff)
  have c: "fst \<circ> (\<lambda>(i, st). (st, int i + 1, ab st)) = (snd :: nat \<times> 'a \<Rightarrow> 'a)"
    by (auto simp: fun_eq_iff)
  show "map snd (map (\<lambda>(i, st). (st, int i + 1)) (enumerate n arr)) = map (\<lambda>i. int i + 1) [n..<n + length arr]"
    unfolding map_map a by (simp only: map_map [symmetric] map_fst_enumerate)
  show "map fst (map (\<lambda>(i, st). (st, int i + 1)) (enumerate n arr)) = arr"
    unfolding map_map b by simp
  show "map fst (map (\<lambda>(i, st). (st, int i + 1, ab st)) (enumerate n arr)) = arr"
    unfolding map_map c by simp
qed

lemma active_stages_shape:
  "active_stages (map (\<lambda>st. (st, 0, ab st)) bs
                  @ map (\<lambda>(i, st). (st, int i + 1, ab st)) (enumerate n arr))
   = map (\<lambda>(i, st). (st, int i + 1)) (enumerate n arr)"
proof -
  let ?R = "map (\<lambda>(i, st). (st, int i + 1, ab st)) (enumerate n arr)"
  let ?P = "\<lambda>(stage, order, _). order > (0::int)"
  have f1: "filter ?P (map (\<lambda>st. (st, 0, ab st)) bs) = []"
    by (induction bs) auto
  have f2: "filter ?P ?R = ?R"
    by (rule filter_True) auto
  have m: "map (\<lambda>(stage, order, _). (stage, order)) ?R
           = map (\<lambda>(i, st). (st, int i + 1)) (enumerate n arr)"
    by auto
  have "sorted (map (\<lambda>i. int i + 1) [n..<n + length arr])"
    by (simp add: sorted_map sorted_wrt_iff_nth_less)
  then have "sorted (map snd (map (\<lambda>(i, st). (st, int i + 1)) (enumerate n arr)))"
    by (simp only: enum_proj)
  then have "sort_key snd (map (\<lambda>(i, st). (st, int i + 1)) (enumerate n arr))
             = map (\<lambda>(i, st). (st, int i + 1)) (enumerate n arr)"
    by (rule sort_key_id_if_sorted)
  then show ?thesis
    unfolding active_stages_def by (simp only: filter_append f1 f2 append_Nil m)
qed

lemma stage_order_of_shape:
  "stage_order_of (map (\<lambda>st. (st, 0, ab st)) bs
                  @ map (\<lambda>(i, st). (st, int i + 1, ab st)) (enumerate n arr)) = arr"
  unfolding stage_order_of_def active_stages_shape by (rule enum_proj)

lemma active_ranks_shape:
  "map snd (active_stages (map (\<lambda>st. (st, 0, ab st)) bs
                  @ map (\<lambda>(i, st). (st, int i + 1, ab st)) (enumerate n arr)))
   = map (\<lambda>i. int i + 1) [n..<n + length arr]"
  unfolding active_stages_shape by (rule enum_proj)

lemma zero_ranks_shape:
  "map fst (filter (\<lambda>(st, rank, ab). rank = 0)
      (map (\<lambda>st. (st, 0, ab st)) bs @ map (\<lambda>(i, st). (st, int i + 1, ab st)) (enumerate n arr)))
   = bs"
proof -
  have "filter (\<lambda>(st, rank, ab). rank = (0::int)) (map (\<lambda>(i, st). (st, int i + 1, ab st)) (enumerate n arr)) = []"
    by (rule filter_False) auto
  moreover have "map fst (filter (\<lambda>(st, rank, ab). rank = (0::int)) (map (\<lambda>st. (st, 0, ab st)) bs)) = bs"
    by (induction bs) auto
  ultimately show ?thesis by simp
qed

lemma names_shape:
  "map fst (map (\<lambda>st. (st, 0::int, ab st)) bs @ map (\<lambda>(i, st). (st, int i + 1, ab st)) (enumerate n arr))
   = bs @ arr"
  by (simp only: map_append enum_proj) (simp add: comp_def)

section \<open>Stage order generation\<close>

lemma rng_ok_keep: "rng_ok rng_keep"
  by (simp add: rng_ok_def rng_keep_def)

lemma rng_ok_rev: "rng_ok rng_rev"
  by (simp add: rng_ok_def rng_rev_def)

lemma in_STAGE_NAMES:
  "''Wild Canyon'' \<in> set STAGE_NAMES" "''Pumpkin Hill'' \<in> set STAGE_NAMES"
  "''Death Chamber'' \<in> set STAGE_NAMES" "''Aquatic Mine'' \<in> set STAGE_NAMES"
  "''Meteor Herd'' \<in> set STAGE_NAMES" "''Dry Lagoon'' \<in> set STAGE_NAMES"
  "''Egg Quarters'' \<in> set STAGE_NAMES" "''Security Hall'' \<in> set STAGE_NAMES"
  "''Mad Space'' \<in> set STAGE_NAMES"
  by (simp_all add: STAGE_NAMES_def STAGES_def)

text \<open>Generation on a list of distinct catalog stages that leaves at least two stages.\<close>

lemma generate_ordered_stages_ok:
  assumes ok: "rng_ok r" and dist: "distinct (banned_stages s)"
    and sub: "set (banned_stages s) \<subseteq> set STAGE_NAMES" and len: "length (banned_stages s) \<le> 7"
  obtains arr where
    "shuffle_remaining r (banned_stages s) = Inr arr"
    "mset arr = mset (remaining_of (banned_stages s))"
    "arr ! 0 \<noteq> ''Security Hall''"
    "generate_ordered_stages r s =
       Inr (s\<lparr>ordered_stages :=
                 map (\<lambda>st. (st, 0, abbr_of st)) (banned_stages s)
                 @ map (\<lambda>(i, st). (st, int i + 1, abbr_of st)) (enumerate 0 arr)\<rparr>,
            map (\<lambda>st. (st, 0, abbr_of st)) (banned_stages s)
            @ map (\<lambda>(i, st). (st, int i + 1, abbr_of st)) (enumerate 0 arr),
            stage_abbrs_value)"
proof -
  have "2 \<le> length (remaining_of (banned_stages s))"
    using remaining_of_length_ge [of "banned_stages s"] len by simp
  from shuffle_remaining_props [OF ok this]
  obtain arr where a: "shuffle_remaining r (banned_stages s) = Inr arr"
    "mset arr = mset (remaining_of (banned_stages s))" "arr ! 0 \<noteq> ''Security Hall''"
    by blast
  from generate_ordered_stages_shape [OF dist sub a(1,2)] a that show thesis by blast
qed

text \<open>
  C1.  With two different catalog stages banned, \<open>generate_ordered_stages\<close> succeeds and
  stores what it returns; the stages of rank 0 are exactly the two banned ones; every
  catalog stage occurs exactly once; the ranks of the active stages, in the order in which
  \<open>generate_split_file\<close> sorts them, are 1, 2, ..., 7; so the active sequence has length 7
  and consists of the stages that are not banned.
\<close>

theorem generate_ordered_stages_ranks:
  assumes "rng_ok r" and "banned_stages s = [a, b]" and "a \<noteq> b"
    and "a \<in> set STAGE_NAMES" and "b \<in> set STAGE_NAMES"
  shows "\<exists>s' ordered abbrs.
           generate_ordered_stages r s = Inr (s', ordered, abbrs)
           \<and> ordered_stages s' = ordered
           \<and> map fst (filter (\<lambda>(st, rank, ab). rank = 0) ordered) = [a, b]
           \<and> distinct (map fst ordered) \<and> set (map fst ordered) = set STAGE_NAMES
           \<and> map snd (active_stages ordered) = [1, 2, 3, 4, 5, 6, 7]
           \<and> length (stage_order_of ordered) = 7
           \<and> set (stage_order_of ordered) = set STAGE_NAMES - {a, b}"
proof -
  have dist: "distinct (banned_stages s)" and sub: "set (banned_stages s) \<subseteq> set STAGE_NAMES"
    and len: "length (banned_stages s) \<le> 7"
    using assms by simp_all
  from generate_ordered_stages_ok [OF assms(1) dist sub len]
  obtain arr where arr: "mset arr = mset (remaining_of (banned_stages s))"
    and gen: "generate_ordered_stages r s =
       Inr (s\<lparr>ordered_stages :=
                 map (\<lambda>st. (st, 0, abbr_of st)) (banned_stages s)
                 @ map (\<lambda>(i, st). (st, int i + 1, abbr_of st)) (enumerate 0 arr)\<rparr>,
            map (\<lambda>st. (st, 0, abbr_of st)) (banned_stages s)
            @ map (\<lambda>(i, st). (st, int i + 1, abbr_of st)) (enumerate 0 arr),
            stage_abbrs_value)"
    by blast
  let ?os = "map (\<lambda>st. (st, 0, abbr_of st)) (banned_stages s)
            @ map (\<lambda>(i, st). (st, int i + 1, abbr_of st)) (enumerate 0 arr)"
  have darr: "distinct arr"
    using mset_eq_imp_distinct_iff [OF arr] remaining_of_distinct by simp
  have sarr: "set arr = set STAGE_NAMES - {a, b}"
    using mset_eq_setD [OF arr] assms(2) by (simp add: remaining_of_set)
  have larr: "length arr = 7"
    using mset_eq_length [OF arr] remaining_of_length_eq [OF dist sub] assms(2) by simp
  have names: "map fst ?os = [a, b] @ arr"
    using names_shape [of abbr_of "banned_stages s" 0 arr] assms(2) by simp
  have ranks: "map snd (active_stages ?os) = [1, 2, 3, 4, 5, 6, 7]"
  proof -
    have "map (\<lambda>i. int i + 1) [0..<7] = [1, 2, 3, 4, 5, 6, 7]" by code_simp
    then show ?thesis by (simp add: active_ranks_shape larr)
  qed
  show ?thesis
  proof (intro exI conjI)
    show "generate_ordered_stages r s = Inr (s\<lparr>ordered_stages := ?os\<rparr>, ?os, stage_abbrs_value)"
      by (rule gen)
    show "ordered_stages (s\<lparr>ordered_stages := ?os\<rparr>) = ?os" by simp
    show "map fst (filter (\<lambda>(st, rank, ab). rank = 0) ?os) = [a, b]"
      using zero_ranks_shape [of abbr_of "banned_stages s" 0 arr] assms(2) by simp
    show "distinct (map fst ?os)"
      unfolding names using darr sarr assms(3) by auto
    show "set (map fst ?os) = set STAGE_NAMES"
      unfolding names using sarr assms(4,5) by auto
    show "map snd (active_stages ?os) = [1, 2, 3, 4, 5, 6, 7]" by (rule ranks)
    show "length (stage_order_of ?os) = 7" by (simp add: stage_order_of_shape larr)
    show "set (stage_order_of ?os) = set STAGE_NAMES - {a, b}"
      by (simp add: stage_order_of_shape sarr)
  qed
qed

theorem generate_ordered_stages_ranks_witness:
  "\<exists>s' ordered abbrs.
     generate_ordered_stages rng_rev two_bans = Inr (s', ordered, abbrs)
     \<and> ordered_stages s' = ordered
     \<and> map fst (filter (\<lambda>(st, rank, ab). rank = 0) ordered) = [''Wild Canyon'', ''Mad Space'']
     \<and> distinct (map fst ordered) \<and> set (map fst ordered) = set STAGE_NAMES
     \<and> map snd (active_stages ordered) = [1, 2, 3, 4, 5, 6, 7]
     \<and> length (stage_order_of ordered) = 7
     \<and> set (stage_order_of ordered) = set STAGE_NAMES - {''Wild Canyon'', ''Mad Space''}"
proof -
  have bans: "banned_stages two_bans = [''Wild Canyon'', ''Mad Space'']"
    by (simp add: two_bans_def)
  have neq: "''Wild Canyon'' \<noteq> ''Mad Space''" by simp
  show ?thesis
    by (rule generate_ordered_stages_ranks [OF rng_ok_rev bans neq in_STAGE_NAMES(1) in_STAGE_NAMES(9)])
qed

text \<open>
  C2.  With two different catalog stages banned, the seven remaining stages are shuffled;
  if Security Hall is first after the shuffle it changes places, once, with the entry at
  the index drawn by \<open>randint(1, 6)\<close>, which lies in 1..6, and otherwise the shuffled
  list is kept.  The result is the active sequence that \<open>generate_split_file\<close> reads back,
  and its first entry is never Security Hall.  (That the index is drawn uniformly is the
  library's distribution, which the model does not describe.)
\<close>

theorem security_hall_never_first:
  assumes "rng_ok r" and "banned_stages s = [a, b]" and "a \<noteq> b"
    and "a \<in> set STAGE_NAMES" and "b \<in> set STAGE_NAMES"
  shows "\<exists>s' ordered abbrs.
           generate_ordered_stages r s = Inr (s', ordered, abbrs)
           \<and> (let sh = shuffle_fn r (remaining_of [a, b]); k = nat (randint_fn r 1 6)
              in length sh = 7 \<and> 1 \<le> k \<and> k \<le> 6
                 \<and> stage_order_of (ordered_stages s')
                     = (if sh ! 0 = ''Security Hall''
                        then sh[0 := sh ! k, k := ''Security Hall''] else sh))
           \<and> stage_order_of (ordered_stages s') ! 0 \<noteq> ''Security Hall''"
proof -
  let ?sh = "shuffle_fn r (remaining_of [a, b])"
  let ?k = "nat (randint_fn r 1 6)"
  let ?arr = "if ?sh ! 0 = ''Security Hall'' then ?sh[0 := ?sh ! ?k, ?k := ''Security Hall''] else ?sh"
  have dist: "distinct (banned_stages s)" and sub: "set (banned_stages s) \<subseteq> set STAGE_NAMES"
    using assms by simp_all
  have lrem: "length (remaining_of [a, b]) = 7"
    using remaining_of_length_eq [OF dist sub] assms(2) by simp
  then have two: "2 \<le> length (remaining_of [a, b])" by simp
  have lsh: "length ?sh = 7"
    using shuffled_facts(4) [OF assms(1), of "[a, b]"] lrem by simp
  note sr = shuffle_remaining_eq [OF assms(1) two]
  have k: "1 \<le> ?k" "?k \<le> 6"
    using sr(2,3) by (simp_all add: lsh)
  have eq: "shuffle_remaining r (banned_stages s) = Inr ?arr"
    using sr(1) by (simp add: Let_def lsh assms(2))
  from shuffle_remaining_props [OF assms(1) two]
  have props: "mset ?arr = mset (remaining_of (banned_stages s))" "?arr ! 0 \<noteq> ''Security Hall''"
    using eq by (auto simp: assms(2))
  let ?os = "map (\<lambda>st. (st, 0, abbr_of st)) (banned_stages s)
            @ map (\<lambda>(i, st). (st, int i + 1, abbr_of st)) (enumerate 0 ?arr)"
  have gen: "generate_ordered_stages r s = Inr (s\<lparr>ordered_stages := ?os\<rparr>, ?os, stage_abbrs_value)"
    by (rule generate_ordered_stages_shape [OF dist sub eq props(1)])
  have sel: "ordered_stages (s\<lparr>ordered_stages := ?os\<rparr>) = ?os" by simp
  have so: "stage_order_of (ordered_stages (s\<lparr>ordered_stages := ?os\<rparr>)) = ?arr"
    unfolding sel by (rule stage_order_of_shape)
  show ?thesis
  proof (intro exI conjI)
    show "generate_ordered_stages r s = Inr (s\<lparr>ordered_stages := ?os\<rparr>, ?os, stage_abbrs_value)"
      by (rule gen)
    show "let sh = shuffle_fn r (remaining_of [a, b]); k = nat (randint_fn r 1 6)
          in length sh = 7 \<and> 1 \<le> k \<and> k \<le> 6
             \<and> stage_order_of (ordered_stages (s\<lparr>ordered_stages := ?os\<rparr>))
                 = (if sh ! 0 = ''Security Hall''
                    then sh[0 := sh ! k, k := ''Security Hall''] else sh)"
      unfolding Let_def using lsh k so by blast
    show "stage_order_of (ordered_stages (s\<lparr>ordered_stages := ?os\<rparr>)) ! 0 \<noteq> ''Security Hall''"
      unfolding so by (rule props(2))
  qed
qed

lemma two_bans_banned: "banned_stages two_bans = [''Wild Canyon'', ''Mad Space'']"
  by (simp add: two_bans_def)

lemma rev_example_shuffle:
  "shuffle_fn rng_rev (remaining_of [''Wild Canyon'', ''Mad Space''])
   = [''Security Hall'', ''Egg Quarters'', ''Dry Lagoon'', ''Meteor Herd'', ''Aquatic Mine'',
      ''Death Chamber'', ''Pumpkin Hill'']"
  by code_simp

theorem security_hall_never_first_witness:
  "shuffle_fn rng_rev (remaining_of [''Wild Canyon'', ''Mad Space'']) ! 0 = ''Security Hall''
   \<and> (\<exists>s' ordered abbrs.
           generate_ordered_stages rng_rev two_bans = Inr (s', ordered, abbrs)
           \<and> (let sh = shuffle_fn rng_rev (remaining_of [''Wild Canyon'', ''Mad Space'']);
                  k = nat (randint_fn rng_rev 1 6)
              in length sh = 7 \<and> 1 \<le> k \<and> k \<le> 6
                 \<and> stage_order_of (ordered_stages s')
                     = (if sh ! 0 = ''Security Hall''
                        then sh[0 := sh ! k, k := ''Security Hall''] else sh))
           \<and> stage_order_of (ordered_stages s') ! 0 \<noteq> ''Security Hall'')"
proof
  show "shuffle_fn rng_rev (remaining_of [''Wild Canyon'', ''Mad Space'']) ! 0 = ''Security Hall''"
    by (simp add: rev_example_shuffle)
  have neq: "''Wild Canyon'' \<noteq> ''Mad Space''" by simp
  show "\<exists>s' ordered abbrs.
           generate_ordered_stages rng_rev two_bans = Inr (s', ordered, abbrs)
           \<and> (let sh = shuffle_fn rng_rev (remaining_of [''Wild Canyon'', ''Mad Space'']);
                  k = nat (randint_fn rng_rev 1 6)
              in length sh = 7 \<and> 1 \<le> k \<and> k \<le> 6
                 \<and> stage_order_of (ordered_stages s')
                     = (if sh ! 0 = ''Security Hall''
                        then sh[0 := sh ! k, k := ''Security Hall''] else sh))
           \<and> stage_order_of (ordered_stages s') ! 0 \<noteq> ''Security Hall''"
    by (rule security_hall_never_first [OF rng_ok_rev two_bans_banned neq in_STAGE_NAMES(1) in_STAGE_NAMES(9)])
qed

text \<open>
  C10.  When the banned stages are distinct catalog stages and at most two, at least seven
  stages remain after the shuffle, so the range \<open>1 .. len - 1\<close> handed to \<open>randint\<close> is
  not empty and \<open>randint\<close> returns an index within it; the shuffle-and-swap step and the
  whole of \<open>generate_ordered_stages\<close> return a result, not an exception.
\<close>

theorem generate_ordered_stages_never_fails:
  assumes "rng_ok r" and "distinct (banned_stages s)"
    and "set (banned_stages s) \<subseteq> set STAGE_NAMES" and "length (banned_stages s) \<le> 2"
  shows "7 \<le> length (shuffle_fn r (remaining_of (banned_stages s)))
         \<and> (\<exists>k. randint r 1 (int (length (shuffle_fn r (remaining_of (banned_stages s)))) - 1) = Inr k
                \<and> 1 \<le> k \<and> k \<le> int (length (shuffle_fn r (remaining_of (banned_stages s)))) - 1)
         \<and> (\<exists>arr. shuffle_remaining r (banned_stages s) = Inr arr)
         \<and> (\<exists>res. generate_ordered_stages r s = Inr res)"
proof -
  let ?sh = "shuffle_fn r (remaining_of (banned_stages s))"
  have "7 \<le> length (remaining_of (banned_stages s))"
    using remaining_of_length_ge [of "banned_stages s"] assms(4) by simp
  then have l7: "7 \<le> length ?sh"
    using shuffled_facts(4) [OF assms(1), of "banned_stages s"] by simp
  then have range: "(1::int) \<le> int (length ?sh) - 1" by simp
  then have "randint r 1 (int (length ?sh) - 1) = Inr (randint_fn r 1 (int (length ?sh) - 1))"
    by (simp add: randint_def)
  moreover have "1 \<le> randint_fn r 1 (int (length ?sh) - 1)
                 \<and> randint_fn r 1 (int (length ?sh) - 1) \<le> int (length ?sh) - 1"
    using assms(1) range unfolding rng_ok_def by blast
  ultimately have draw: "\<exists>k. randint r 1 (int (length ?sh) - 1) = Inr k
                \<and> 1 \<le> k \<and> k \<le> int (length ?sh) - 1"
    by blast
  have len: "length (banned_stages s) \<le> 7" using assms(4) by simp
  from generate_ordered_stages_ok [OF assms(1,2,3) len]
  obtain arr res where "shuffle_remaining r (banned_stages s) = Inr arr"
    "generate_ordered_stages r s = Inr res"
    by blast
  with l7 draw show ?thesis by blast
qed

theorem generate_ordered_stages_never_fails_witness:
  "7 \<le> length (shuffle_fn rng_keep (remaining_of (banned_stages two_bans)))
   \<and> (\<exists>k. randint rng_keep 1 (int (length (shuffle_fn rng_keep (remaining_of (banned_stages two_bans)))) - 1) = Inr k
          \<and> 1 \<le> k \<and> k \<le> int (length (shuffle_fn rng_keep (remaining_of (banned_stages two_bans)))) - 1)
   \<and> (\<exists>arr. shuffle_remaining rng_keep (banned_stages two_bans) = Inr arr)
   \<and> (\<exists>res. generate_ordered_stages rng_keep two_bans = Inr res)"
proof -
  have d: "distinct (banned_stages two_bans)" by (simp add: two_bans_banned)
  have s: "set (banned_stages two_bans) \<subseteq> set STAGE_NAMES"
    by (simp add: two_bans_banned in_STAGE_NAMES)
  have l: "length (banned_stages two_bans) \<le> 2" by (simp add: two_bans_banned)
  show ?thesis
    by (rule generate_ordered_stages_never_fails [OF rng_ok_keep d s l])
qed

text \<open>The failing branch exists: with Security Hall alone remaining the range is empty.\<close>

lemma shuffle_remaining_raises:
  "shuffle_remaining rng_keep
     [''Wild Canyon'', ''Pumpkin Hill'', ''Death Chamber'', ''Aquatic Mine'', ''Meteor Herd'',
      ''Dry Lagoon'', ''Egg Quarters'', ''Mad Space''] = Inl ValueError"
  by code_simp

section \<open>The split labels\<close>

lemma split_loop_eq:
  "foldl (\<lambda>acc stage. foldl (split_step stage tot) acc [1, 2, 3, 4, 5]) (names, segs, num) stage_order
   = (names @ concat (map (\<lambda>stage. map (\<lambda>i. stage @ '' '' @ py_str i) [1, 2, 3, 4, 5]) stage_order),
      segs @ map segment (seg_labels tot num stage_order),
      num + 5 * int (length stage_order))"
proof (induction stage_order arbitrary: names segs num)
  case Nil
  then show ?case by simp
next
  case (Cons stage rest)
  have inner: "foldl (split_step stage tot) (names, segs, num) [1, 2, 3, 4, 5]
        = (names @ map (\<lambda>i. stage @ '' '' @ py_str i) [1, 2, 3, 4, 5],
           segs @ map segment (map (\<lambda>i. stage @ '' '' @ py_str (int i + 1) @ '' ('' @ py_str (num + int i) @ ''/'' @ py_str tot @ '')'') [0, 1, 2, 3, 4]),
           num + 5)"
    by (simp add: Let_def add.commute)
  let ?F = "\<lambda>acc stage. foldl (split_step stage tot) acc [1, 2, 3, 4, 5]"
  let ?blk = "map (\<lambda>i. stage @ '' '' @ py_str (int i + 1) @ '' ('' @ py_str (num + int i) @ ''/'' @ py_str tot @ '')'') [0, 1, 2, 3, 4]"
  have "foldl ?F (names, segs, num) (stage # rest) = foldl ?F (?F (names, segs, num) stage) rest"
    by (rule foldl_Cons)
  also have "\<dots> = foldl ?F (names @ map (\<lambda>i. stage @ '' '' @ py_str i) [1, 2, 3, 4, 5],
                               segs @ map segment ?blk, num + 5) rest"
    by (simp only: inner)
  also have "\<dots> = ((names @ map (\<lambda>i. stage @ '' '' @ py_str i) [1, 2, 3, 4, 5])
                      @ concat (map (\<lambda>stage. map (\<lambda>i. stage @ '' '' @ py_str i) [1, 2, 3, 4, 5]) rest),
                     (segs @ map segment ?blk) @ map segment (seg_labels tot (num + 5) rest),
                     num + 5 + 5 * int (length rest))"
    by (rule Cons.IH)
  finally show ?case by simp
qed

lemma segment_names_segments:
  "segment_names (Element t a c (map segment labels)) = labels"
  by (induction labels) (simp_all add: segment_names_def segment_def leaf_def leaf_text_def)

lemma length_seg_labels: "length (seg_labels tot num stage_order) = 5 * length stage_order"
  by (induction stage_order arbitrary: num) simp_all

lemma nth_upto4: "i < 5 \<Longrightarrow> [0, 1, 2, 3, 4 :: nat] ! i = i"
proof -
  assume "i < 5"
  then have "i \<in> set [0..<5]" by simp
  moreover have "\<forall>i \<in> set [0..<5]. [0, 1, 2, 3, 4 :: nat] ! i = i" by code_simp
  ultimately show ?thesis by blast
qed

lemma seg_labels_nth:
  "j < length stage_order \<Longrightarrow> i < 5 \<Longrightarrow>
   seg_labels tot num stage_order ! (5 * j + i)
   = stage_order ! j @ '' '' @ py_str (int i + 1) @ '' ('' @ py_str (num + 5 * int j + int i)
     @ ''/'' @ py_str tot @ '')''"
proof (induction stage_order arbitrary: num j)
  case Nil
  then show ?case by simp
next
  case (Cons stage rest)
  define f where "f = (\<lambda>i. stage @ '' '' @ py_str (int i + 1) @ '' ('' @ py_str (num + int i) @ ''/'' @ py_str tot @ '')'')"
  define blk where "blk = map f [0, 1, 2, 3, 4]"
  have unfold: "seg_labels tot num (stage # rest) = blk @ seg_labels tot (num + 5) rest"
    by (simp add: blk_def f_def)
  have lblk: "length blk = 5" by (simp add: blk_def)
  show ?case
  proof (cases j)
    case 0
    have "blk ! i = f ([0, 1, 2, 3, 4] ! i)"
      unfolding blk_def using Cons.prems(2) by (intro nth_map) simp
    then have "blk ! i = f i" using Cons.prems(2) by (simp only: nth_upto4)
    moreover have "(blk @ seg_labels tot (num + 5) rest) ! i = blk ! i"
      using Cons.prems(2) lblk by (simp add: nth_append)
    ultimately show ?thesis
      unfolding unfold using 0 by (simp add: f_def)
  next
    case (Suc j')
    then have j': "j' < length rest" using Cons.prems(1) by simp
    have "(blk @ seg_labels tot (num + 5) rest) ! (5 * j + i)
          = seg_labels tot (num + 5) rest ! (5 * j' + i)"
      using Suc lblk by (simp add: nth_append)
    also have "\<dots> = rest ! j' @ '' '' @ py_str (int i + 1) @ '' ('' @ py_str (num + 5 + 5 * int j' + int i)
     @ ''/'' @ py_str tot @ '')''"
      by (rule Cons.IH [OF j' Cons.prems(2)])
    also have "num + 5 + 5 * int j' + int i = num + 5 * int j + int i"
      using Suc by simp
    finally show ?thesis unfolding unfold using Suc by simp
  qed
qed

text \<open>
  C3.  Called as \<open>generate_split_file\<close> calls it (an empty \<open>Segments\<close> element and
  \<open>total_splits = len(stage_order) * 5\<close>), \<open>_create_livesplit_segments\<close> produces
  exactly \<open>5 * N\<close> segments for \<open>N\<close> stages, and the name of the segment at position
  \<open>5 * j + i\<close> (\<open>j < N\<close>, \<open>i < 5\<close>) is the \<open>j\<close>-th stage, a space, \<open>i + 1\<close>, and the
  running index \<open>5 * j + i + 1\<close> over the tot \<open>5 * N\<close> in brackets: five labels per
  stage in the order of the stages, numbered 1 to \<open>5 * N\<close> without gaps.
\<close>

theorem livesplit_segment_labels:
  "case create_livesplit_segments (leaf ''Segments'') stage_order (int (length stage_order) * 5) s of
     (s', segments) \<Rightarrow>
       length (segment_names segments) = 5 * length stage_order
       \<and> (\<forall>j < length stage_order. \<forall>i < 5.
             segment_names segments ! (5 * j + i)
             = stage_order ! j @ '' '' @ py_str (int i + 1)
               @ '' ('' @ py_str (int (5 * j + i) + 1) @ ''/'' @ py_str (int (5 * length stage_order)) @ '')'')"
proof -
  let ?tot = "int (length stage_order) * 5"
  have names: "segment_names (snd (create_livesplit_segments (leaf ''Segments'') stage_order ?tot s))
               = seg_labels ?tot 1 stage_order"
    unfolding create_livesplit_segments_def split_loop_eq
    by (simp add: leaf_def segment_names_segments)
  have "\<forall>j < length stage_order. \<forall>i < 5.
          seg_labels ?tot 1 stage_order ! (5 * j + i)
          = stage_order ! j @ '' '' @ py_str (int i + 1)
            @ '' ('' @ py_str (int (5 * j + i) + 1) @ ''/'' @ py_str (int (5 * length stage_order)) @ '')''"
  proof (intro allI impI)
    fix j i :: nat
    assume j: "j < length stage_order" and i: "i < 5"
    have "seg_labels ?tot 1 stage_order ! (5 * j + i)
          = stage_order ! j @ '' '' @ py_str (int i + 1) @ '' ('' @ py_str (1 + 5 * int j + int i)
            @ ''/'' @ py_str ?tot @ '')''"
      using j i by (rule seg_labels_nth)
    moreover have "1 + 5 * int j + int i = int (5 * j + i) + 1" by simp
    moreover have "?tot = int (5 * length stage_order)" by simp
    ultimately show "seg_labels ?tot 1 stage_order ! (5 * j + i)
          = stage_order ! j @ '' '' @ py_str (int i + 1)
            @ '' ('' @ py_str (int (5 * j + i) + 1) @ ''/'' @ py_str (int (5 * length stage_order)) @ '')''"
      by (simp only:)
  qed
  with names show ?thesis
    by (simp add: case_prod_beta length_seg_labels)
qed

theorem livesplit_segment_labels_witness:
  "length (segment_names (snd (create_livesplit_segments (leaf ''Segments'')
             [''Dry Lagoon'', ''Mad Space''] 10 init_session))) = 10
   \<and> segment_names (snd (create_livesplit_segments (leaf ''Segments'')
             [''Dry Lagoon'', ''Mad Space''] 10 init_session)) ! 7 = ''Mad Space 3 (8/10)''"
proof -
  let ?names = "segment_names (snd (create_livesplit_segments (leaf ''Segments'')
             [''Dry Lagoon'', ''Mad Space''] 10 init_session))"
  from livesplit_segment_labels [of "[''Dry Lagoon'', ''Mad Space'']" init_session]
  have all: "length ?names = 10
     \<and> (\<forall>j < 2. \<forall>i < 5. ?names ! (5 * j + i)
            = [''Dry Lagoon'', ''Mad Space''] ! j @ '' '' @ py_str (int i + 1)
              @ '' ('' @ py_str (int (5 * j + i) + 1) @ ''/'' @ py_str 10 @ '')'')"
    by (simp add: case_prod_beta)
  have strs: "py_str 3 = ''3''" "py_str 8 = ''8''" "py_str 10 = ''10''"
    by code_simp+
  from all [THEN conjunct2, rule_format, of 1 2]
  have "?names ! 7 = ''Mad Space 3 (8/10)''" by (simp add: strs)
  with all show ?thesis by blast
qed

section \<open>The config file\<close>

lemma number_pass_value:
  "number_pass stage_abbrs_value STAGE_NAMES [] = Inr (map (\<lambda>(stage, abbr). (abbr, ''5'')) stage_abbrs_value)"
  by code_simp

lemma randint_seed: "randint r 1 MAX_SEED = Inr (randint_fn r 1 MAX_SEED)"
  by (simp add: randint_def MAX_SEED_def)

lemma py_str_zero: "py_str 0 = ''0''"
  by code_simp

lemma abbrs_of_shape:
  "map (\<lambda>(n, v, a). a) (map (\<lambda>st. (st, 0::int, abbr_of st)) bs
                          @ map (\<lambda>(i, st). (st, int i + 1, abbr_of st)) (enumerate n arr))
   = map abbr_of (bs @ arr)"
proof -
  have c: "(\<lambda>(n, v, a). a) \<circ> (\<lambda>(i, st). (st, int i + 1, abbr_of st)) = abbr_of \<circ> (snd :: nat \<times> string \<Rightarrow> string)"
    by (auto simp: fun_eq_iff)
  have "map (\<lambda>(n, v, a). a) (map (\<lambda>(i, st). (st, int i + 1, abbr_of st)) (enumerate n arr)) = map abbr_of arr"
    unfolding map_map c by (simp only: map_map [symmetric] map_snd_enumerate)
  then show ?thesis by (simp add: comp_def)
qed

lemma order_items_shape:
  "map (\<lambda>(n, v, a). (a, py_str v)) (map (\<lambda>st. (st, 0::int, abbr_of st)) bs
                          @ map (\<lambda>(i, st). (st, int i + 1, abbr_of st)) (enumerate n arr))
   = map (\<lambda>st. (abbr_of st, ''0'')) bs
     @ map (\<lambda>(i, st). (abbr_of st, py_str (int i + 1))) (enumerate n arr)"
  by (simp add: comp_def py_str_zero case_prod_beta)

text \<open>The sections of the config file for a generated ordering of the shape above.\<close>

lemma config_sections_shape:
  assumes dist: "distinct (banned_stages s)" and sub: "set (banned_stages s) \<subseteq> set STAGE_NAMES"
    and arr: "shuffle_remaining r (banned_stages s) = Inr arr"
    and marr: "mset arr = mset (remaining_of (banned_stages s))"
  shows "config_sections r s =
           Inr (s\<lparr>ordered_stages :=
                     map (\<lambda>st. (st, 0, abbr_of st)) (banned_stages s)
                     @ map (\<lambda>(i, st). (st, int i + 1, abbr_of st)) (enumerate 0 arr)\<rparr>,
                [(''set'', [(''seed'', py_str (randint_fn r 1 MAX_SEED)), (''ups'', ''True'')]),
                 (''order'', map (\<lambda>st. (abbr_of st, ''0'')) (banned_stages s)
                             @ map (\<lambda>(i, st). (abbr_of st, py_str (int i + 1))) (enumerate 0 arr)),
                 (''number'', map (\<lambda>(stage, abbr). (abbr, ''5'')) stage_abbrs_value)])"
proof -
  let ?b = "banned_stages s"
  let ?os = "map (\<lambda>st. (st, 0, abbr_of st)) ?b
             @ map (\<lambda>(i, st). (st, int i + 1, abbr_of st)) (enumerate 0 arr)"
  let ?od = "map (\<lambda>st. (abbr_of st, ''0'')) ?b
             @ map (\<lambda>(i, st). (abbr_of st, py_str (int i + 1))) (enumerate 0 arr)"
  have gen: "generate_ordered_stages r s = Inr (s\<lparr>ordered_stages := ?os\<rparr>, ?os, stage_abbrs_value)"
    by (rule generate_ordered_stages_shape [OF dist sub arr marr])
  have darr: "distinct arr"
    using mset_eq_imp_distinct_iff [OF marr] remaining_of_distinct by simp
  have sarr: "set arr = set STAGE_NAMES - set ?b"
    using mset_eq_setD [OF marr] by (simp add: remaining_of_set)
  have "distinct (?b @ arr)" "set (?b @ arr) \<subseteq> set STAGE_NAMES"
    using dist darr sarr sub by auto
  then have dk: "distinct (map (\<lambda>(n, v, a). a) ?os)"
    unfolding abbrs_of_shape by (rule abbr_of_distinct_sub)
  have rebuild: "foldl (\<lambda>d (stage_name, order_value, abbr). dict_set d abbr (py_str order_value)) [] ?os = ?od"
    using order_dict_rebuild [OF dk, of "[]"] by (simp only: order_items_shape) simp
  have keys: "fst ` set ?od = abbr_of ` (set ?b \<union> set arr)"
  proof -
    have "map fst ?od = map (\<lambda>(n, v, a). a) ?os"
      unfolding order_items_shape [symmetric] by (simp add: comp_def case_prod_beta)
    then have "set (map fst ?od) = set (map abbr_of (?b @ arr))"
      by (simp only: abbrs_of_shape)
    then show ?thesis by (simp only: set_map set_append)
  qed
  have fill: "fill_pass stage_abbrs_value STAGE_NAMES ?od = Inr ?od"
  proof (rule fill_pass_full)
    fix st assume st: "st \<in> set STAGE_NAMES"
    then have "st \<in> set ?b \<union> set arr" using sarr by auto
    then have "abbr_of st \<in> fst ` set ?od" unfolding keys by (rule imageI)
    with st show "\<exists>a. map_of stage_abbrs_value st = Some a \<and> dict_has ?od a"
      by (auto simp: stage_abbrs_lookup dict_has_def)
  qed
  show ?thesis
    unfolding config_sections_def
    by (simp only: gen sum.case prod.case randint_seed Let_def rebuild fill number_pass_value)
       (simp add: write_config_section_def)
qed

lemma abbr_of_values:
  "abbr_of ''Wild Canyon'' = ''wc''" "abbr_of ''Pumpkin Hill'' = ''ph''"
  "abbr_of ''Death Chamber'' = ''dc''" "abbr_of ''Aquatic Mine'' = ''am''"
  "abbr_of ''Meteor Herd'' = ''mh''" "abbr_of ''Dry Lagoon'' = ''dl''"
  "abbr_of ''Egg Quarters'' = ''eq''" "abbr_of ''Security Hall'' = ''sh''"
  "abbr_of ''Mad Space'' = ''ms''"
  by (simp_all add: abbr_of_def stage_abbrs_value_def)

lemma py_str_small:
  "py_str 1 = ''1''" "py_str 2 = ''2''" "py_str 3 = ''3''" "py_str 4 = ''4''"
  "py_str 5 = ''5''" "py_str 6 = ''6''" "py_str 7 = ''7''"
  by code_simp+

lemma enumerate7: "enumerate 0 [a, b, c, d, e, f, g] = [(0, a), (1, b), (2, c), (3, d), (4, e), (5, f), (6, g)]"
  by (simp add: enumerate_eq_zip upt_rec)


lemma catalog_keys: "map abbr_of STAGE_NAMES = [''wc'', ''ph'', ''dc'', ''am'', ''mh'', ''dl'', ''eq'', ''sh'', ''ms'']"
  by (simp add: STAGE_NAMES_def STAGES_def abbr_of_values)

subsection \<open>The text of the file\<close>

lemma unlines_append: "unlines (xs @ ys) = unlines xs @ unlines ys"
  by (simp add: unlines_def)

lemma unlines_Cons: "unlines (l # ls) = l @ [CHR 0x0A] @ unlines ls"
  by (simp add: unlines_def)

lemma unlines_items:
  "unlines (map (\<lambda>(key, v). key @ ''='' @ v) items)
   = concat (map (\<lambda>(key, v). key @ ''='' @ v @ [CHR 0x0A]) items)"
  by (induction items) (auto simp: unlines_def)

lemma unlines_section:
  "unlines ((''['' @ sec @ '']'') # map (\<lambda>(key, v). key @ ''='' @ v) items @ [''''])
   = ''['' @ sec @ '']'' @ [CHR 0x0A]
     @ concat (map (\<lambda>(key, v). key @ ''='' @ v @ [CHR 0x0A]) items) @ [CHR 0x0A]"
proof -
  have "unlines [''''] = [CHR 0x0A]" by (simp add: unlines_def)
  then show ?thesis
    by (simp only: unlines_Cons unlines_append unlines_items) simp
qed

lemma render_config_lines: "render_config config = unlines (config_lines config)"
proof (induction config)
  case Nil
  show ?case by (simp add: render_config_def config_lines_def unlines_def)
next
  case (Cons p config)
  obtain sec items where p: "p = (sec, items)" by (cases p)
  have "render_config (p # config)
        = (''['' @ sec @ '']'' @ [CHR 0x0A]
           @ concat (map (\<lambda>(key, v). key @ ''='' @ v @ [CHR 0x0A]) items) @ [CHR 0x0A])
          @ render_config config"
    by (simp add: render_config_def p)
  also have "\<dots> = unlines ((''['' @ sec @ '']'') # map (\<lambda>(key, v). key @ ''='' @ v) items @ [''''])
                   @ unlines (config_lines config)"
    by (simp only: Cons.IH unlines_section)
  also have "\<dots> = unlines (config_lines (p # config))"
    by (simp add: config_lines_def p unlines_append [symmetric])
  finally show ?case .
qed

text \<open>The three sections of every configuration that \<open>config_sections\<close> returns.\<close>

lemma config_sections_form:
  assumes "config_sections r s = Inr (s', config)"
  shows "\<exists>ordered abbrs order_dict number_dict.
           generate_ordered_stages r s = Inr (s', ordered, abbrs)
           \<and> fill_pass abbrs STAGE_NAMES
                (foldl (\<lambda>d (stage_name, order_value, abbr). dict_set d abbr (py_str order_value)) [] ordered)
               = Inr order_dict
           \<and> number_pass abbrs STAGE_NAMES [] = Inr number_dict
           \<and> config = [(''set'', [(''seed'', py_str (randint_fn r 1 MAX_SEED)), (''ups'', ''True'')]),
                        (''order'', order_dict), (''number'', number_dict)]"
  using assms
  by (auto simp: config_sections_def randint_seed write_config_section_def Let_def
           split: sum.splits prod.splits)

lemma config_lines_three:
  "config_lines [(''set'', [(''seed'', seed), (''ups'', ''True'')]), (''order'', order_dict), (''number'', number_dict)]
   = [''[set]'', ''seed='' @ seed, ''ups=True'', '''']
     @ (''[order]'' # map (\<lambda>(key, v). key @ ''='' @ v) order_dict @ [''''])
     @ (''[number]'' # map (\<lambda>(key, v). key @ ''='' @ v) number_dict @ [''''])"
  by (simp add: config_lines_def)

text \<open>
  C9.  Whenever \<open>generate_config_file\<close> writes a file, the file is \<open>config.ini\<close> and its
  text begins with the lines \<open>[set]\<close>, \<open>seed=\<close> followed by the decimal digits of an
  integer between 1 and \<open>2^31 - 1\<close>, \<open>ups=True\<close> and an empty line.
\<close>

theorem seed_in_range:
  assumes "rng_ok r" and "generate_config_file r s = Inr (s', name, body)"
  shows "\<exists>seed rest.
           name = ''config.ini''
           \<and> body = unlines ([''[set]'', ''seed='' @ py_str seed, ''ups=True'', ''''] @ rest)
           \<and> 1 \<le> seed \<and> seed \<le> 2 ^ 31 - 1
           \<and> py_str seed \<noteq> [] \<and> list_all is_digit (py_str seed) \<and> py_int (py_str seed) = Inr seed"
proof -
  let ?seed = "randint_fn r 1 MAX_SEED"
  have "(1::int) \<le> MAX_SEED" by (simp add: MAX_SEED_def)
  with assms(1) have b: "1 \<le> ?seed \<and> ?seed \<le> MAX_SEED"
    unfolding rng_ok_def by blast
  then have bounds: "1 \<le> ?seed" "?seed \<le> 2 ^ 31 - 1" by (simp_all add: MAX_SEED_def)
  from assms(2) obtain config where cs: "config_sections r s = Inr (s', config)"
    and name: "name = ''config.ini''" and body: "body = render_config config"
    by (auto simp: generate_config_file_def split: sum.splits)
  from config_sections_form [OF cs] obtain order_dict number_dict where
    config: "config = [(''set'', [(''seed'', py_str ?seed), (''ups'', ''True'')]),
                        (''order'', order_dict), (''number'', number_dict)]"
    by blast
  have body_eq: "body = unlines ([''[set]'', ''seed='' @ py_str ?seed, ''ups=True'', '''']
                 @ ((''[order]'' # map (\<lambda>(key, v). key @ ''='' @ v) order_dict @ [''''])
                    @ (''[number]'' # map (\<lambda>(key, v). key @ ''='' @ v) number_dict @ [''''])))"
    unfolding body render_config_lines config config_lines_three by simp
  have digits: "py_str ?seed \<noteq> []" "list_all is_digit (py_str ?seed)"
    using bounds(1) by (simp_all add: py_str_def str_nat_nonempty str_nat_digits)
  have "py_int (py_str ?seed) = Inr ?seed"
    using bounds(1) by (intro py_int_py_str) simp
  with name body_eq bounds digits show ?thesis by blast
qed

subsection \<open>The files of the examples\<close>

lemma rng_ok_swap: "rng_ok rng_swap"
  by (simp add: rng_ok_def rng_swap_def)

lemma rng_ok_swap2: "rng_ok rng_swap2"
  by (simp add: rng_ok_def rng_swap2_def)

lemma wc_ms_remaining:
  "remaining_of [''Wild Canyon'', ''Mad Space'']
   = [''Pumpkin Hill'', ''Death Chamber'', ''Aquatic Mine'', ''Meteor Herd'', ''Dry Lagoon'',
      ''Egg Quarters'', ''Security Hall'']"
  by code_simp

lemma keep_wc_ms_arr:
  "shuffle_remaining rng_keep [''Wild Canyon'', ''Mad Space'']
   = Inr [''Pumpkin Hill'', ''Death Chamber'', ''Aquatic Mine'', ''Meteor Herd'', ''Dry Lagoon'',
          ''Egg Quarters'', ''Security Hall'']"
  by code_simp

lemma swap_wc_ms_arr:
  "shuffle_remaining rng_swap [''Wild Canyon'', ''Mad Space'']
   = Inr [''Pumpkin Hill'', ''Egg Quarters'', ''Dry Lagoon'', ''Meteor Herd'', ''Aquatic Mine'',
          ''Death Chamber'', ''Security Hall'']"
  by code_simp

lemma swap2_wc_ms_arr:
  "shuffle_remaining rng_swap2 [''Wild Canyon'', ''Mad Space'']
   = Inr [''Pumpkin Hill'', ''Egg Quarters'', ''Dry Lagoon'', ''Meteor Herd'', ''Aquatic Mine'',
          ''Death Chamber'', ''Security Hall'']"
  by code_simp

lemma swap_wc_ms_first:
  "shuffle_fn rng_swap (remaining_of [''Wild Canyon'', ''Mad Space'']) ! 0 = ''Security Hall''"
  by code_simp

lemma swap_seed: "randint_fn rng_swap 1 MAX_SEED = 1" "randint_fn rng_swap2 1 MAX_SEED = 2"
  by (simp_all add: rng_swap_def rng_swap2_def MAX_SEED_def)

lemma py_str_two: "py_str 2 = ''2''"
  by code_simp

text \<open>The file for these two bans when the shuffle leaves the list as it is.\<close>

lemma keep_file:
  assumes "banned_stages s = [''Wild Canyon'', ''Mad Space'']"
  shows "generate_config_file rng_keep s =
     Inr (s\<lparr>ordered_stages :=
            [(''Wild Canyon'', 0, ''wc''), (''Mad Space'', 0, ''ms''),
             (''Pumpkin Hill'', 1, ''ph''), (''Death Chamber'', 2, ''dc''),
             (''Aquatic Mine'', 3, ''am''), (''Meteor Herd'', 4, ''mh''),
             (''Dry Lagoon'', 5, ''dl''), (''Egg Quarters'', 6, ''eq''),
             (''Security Hall'', 7, ''sh'')]\<rparr>,
          ''config.ini'',
          unlines [''[set]'', ''seed=1'', ''ups=True'', '''',
                   ''[order]'', ''wc=0'', ''ms=0'', ''ph=1'', ''dc=2'', ''am=3'', ''mh=4'', ''dl=5'',
                   ''eq=6'', ''sh=7'', '''',
                   ''[number]'', ''wc=5'', ''ph=5'', ''dc=5'', ''am=5'', ''mh=5'', ''dl=5'', ''eq=5'',
                   ''sh=5'', ''ms=5'', ''''])"
proof -
  have d: "distinct (banned_stages s)" and c: "set (banned_stages s) \<subseteq> set STAGE_NAMES"
    by (simp_all add: assms in_STAGE_NAMES)
  have arr: "shuffle_remaining rng_keep (banned_stages s)
             = Inr [''Pumpkin Hill'', ''Death Chamber'', ''Aquatic Mine'', ''Meteor Herd'', ''Dry Lagoon'',
                    ''Egg Quarters'', ''Security Hall'']"
    by (simp only: assms keep_wc_ms_arr)
  have m: "mset [''Pumpkin Hill'', ''Death Chamber'', ''Aquatic Mine'', ''Meteor Herd'', ''Dry Lagoon'',
                 ''Egg Quarters'', ''Security Hall''] = mset (remaining_of (banned_stages s))"
    by (simp only: assms wc_ms_remaining)
  show ?thesis
    unfolding generate_config_file_def config_sections_shape [OF d c arr m] render_config_lines
    by (simp add: assms abbr_of_values py_str_small enumerate7 stage_abbrs_value_def rng_keep_def
          config_lines_def)
qed

text \<open>The file for these two bans when the shuffle reverses the list and the swap index is 6.\<close>

lemma swap_file:
  assumes "banned_stages s = [''Wild Canyon'', ''Mad Space'']"
  shows "generate_config_file rng_swap s =
     Inr (s\<lparr>ordered_stages :=
            [(''Wild Canyon'', 0, ''wc''), (''Mad Space'', 0, ''ms''),
             (''Pumpkin Hill'', 1, ''ph''), (''Egg Quarters'', 2, ''eq''),
             (''Dry Lagoon'', 3, ''dl''), (''Meteor Herd'', 4, ''mh''),
             (''Aquatic Mine'', 5, ''am''), (''Death Chamber'', 6, ''dc''),
             (''Security Hall'', 7, ''sh'')]\<rparr>,
          ''config.ini'',
          unlines [''[set]'', ''seed=1'', ''ups=True'', '''',
                   ''[order]'', ''wc=0'', ''ms=0'', ''ph=1'', ''eq=2'', ''dl=3'', ''mh=4'', ''am=5'',
                   ''dc=6'', ''sh=7'', '''',
                   ''[number]'', ''wc=5'', ''ph=5'', ''dc=5'', ''am=5'', ''mh=5'', ''dl=5'', ''eq=5'',
                   ''sh=5'', ''ms=5'', ''''])"
proof -
  have d: "distinct (banned_stages s)" and c: "set (banned_stages s) \<subseteq> set STAGE_NAMES"
    by (simp_all add: assms in_STAGE_NAMES)
  have arr: "shuffle_remaining rng_swap (banned_stages s)
             = Inr [''Pumpkin Hill'', ''Egg Quarters'', ''Dry Lagoon'', ''Meteor Herd'', ''Aquatic Mine'',
                    ''Death Chamber'', ''Security Hall'']"
    by (simp only: assms swap_wc_ms_arr)
  have two: "2 \<le> length (remaining_of (banned_stages s))"
    by (simp add: assms wc_ms_remaining)
  from shuffle_remaining_props [OF rng_ok_swap two] arr
  have m: "mset [''Pumpkin Hill'', ''Egg Quarters'', ''Dry Lagoon'', ''Meteor Herd'', ''Aquatic Mine'',
                 ''Death Chamber'', ''Security Hall''] = mset (remaining_of (banned_stages s))"
    by auto
  show ?thesis
    unfolding generate_config_file_def config_sections_shape [OF d c arr m] render_config_lines
    by (simp add: assms abbr_of_values py_str_small enumerate7 stage_abbrs_value_def swap_seed
          config_lines_def)
qed

lemma stored_example_banned: "banned_stages stored_example = [''Wild Canyon'', ''Mad Space'']"
  by (simp add: stored_example_def)

lemma stored_example_ordering:
  "map_sum id fst (generate_config_file rng_swap two_bans)
   = Inr (two_bans\<lparr>ordered_stages := ordered_stages stored_example\<rparr>)"
  by (simp add: swap_file [OF two_bans_banned] stored_example_def)

theorem seed_in_range_witness:
  "\<exists>seed rest.
     ''config.ini'' = ''config.ini''
     \<and> unlines [''[set]'', ''seed=1'', ''ups=True'', '''',
                 ''[order]'', ''wc=0'', ''ms=0'', ''ph=1'', ''dc=2'', ''am=3'', ''mh=4'', ''dl=5'',
                 ''eq=6'', ''sh=7'', '''',
                 ''[number]'', ''wc=5'', ''ph=5'', ''dc=5'', ''am=5'', ''mh=5'', ''dl=5'', ''eq=5'',
                 ''sh=5'', ''ms=5'', '''']
         = unlines ([''[set]'', ''seed='' @ py_str seed, ''ups=True'', ''''] @ rest)
     \<and> 1 \<le> seed \<and> seed \<le> 2 ^ 31 - 1
     \<and> py_str seed \<noteq> [] \<and> list_all is_digit (py_str seed) \<and> py_int (py_str seed) = Inr seed"
  by (rule seed_in_range [OF rng_ok_keep keep_file [OF two_bans_banned]])

subsection \<open>The order of the keys\<close>

lemma keep_order_keys:
  "file_section_keys ''order''
     (unlines [''[set]'', ''seed=1'', ''ups=True'', '''',
               ''[order]'', ''wc=0'', ''ms=0'', ''ph=1'', ''dc=2'', ''am=3'', ''mh=4'', ''dl=5'',
               ''eq=6'', ''sh=7'', '''',
               ''[number]'', ''wc=5'', ''ph=5'', ''dc=5'', ''am=5'', ''mh=5'', ''dl=5'', ''eq=5'',
               ''sh=5'', ''ms=5'', ''''])
   = [''wc'', ''ms'', ''ph'', ''dc'', ''am'', ''mh'', ''dl'', ''eq'', ''sh'']"
  by code_simp

text \<open>
  C5 as stated fails: with Wild Canyon and Mad Space banned and the shuffle leaving the
  list as it is, the keys of the order section of the file written start with those of
  the two banned stages, \<open>wc\<close> and \<open>ms\<close>, where the catalog has \<open>wc\<close> and \<open>ph\<close>.
\<close>

theorem order_section_not_catalog_order:
  "file_section_keys ''order'' (config_text (generate_config_file rng_keep two_bans))
     = [''wc'', ''ms'', ''ph'', ''dc'', ''am'', ''mh'', ''dl'', ''eq'', ''sh'']
   \<and> map abbr_of STAGE_NAMES = [''wc'', ''ph'', ''dc'', ''am'', ''mh'', ''dl'', ''eq'', ''sh'', ''ms'']
   \<and> file_section_keys ''order'' (config_text (generate_config_file rng_keep two_bans))
       \<noteq> map abbr_of STAGE_NAMES"
proof -
  have "file_section_keys ''order'' (config_text (generate_config_file rng_keep two_bans))
     = [''wc'', ''ms'', ''ph'', ''dc'', ''am'', ''mh'', ''dl'', ''eq'', ''sh'']"
    unfolding keep_file [OF two_bans_banned] config_text_def
    by (simp only: sum.case prod.case keep_order_keys)
  then show ?thesis by (simp add: catalog_keys)
qed

text \<open>
  C5, amended.  With two different catalog stages banned, \<open>generate_config_file\<close> writes
  \<open>config.ini\<close> with the sections \<open>set\<close>, \<open>order\<close>, \<open>number\<close> in this order, each closed by
  an empty line.  The lines of \<open>number\<close> are \<open>key=5\<close> for the keys in catalog order,
  whatever was banned and however the shuffle came out.  The lines of \<open>order\<close> are \<open>key=0\<close>
  for the two banned stages, in the order of the bans, followed by \<open>key=rank\<close> for the
  active stages in the order of their ranks 1, 2, ...
\<close>

theorem config_key_order:
  assumes "rng_ok r" and "banned_stages s = [a, b]" and "a \<noteq> b"
    and "a \<in> set STAGE_NAMES" and "b \<in> set STAGE_NAMES"
  shows "\<exists>s'. generate_config_file r s =
           Inr (s', ''config.ini'',
                unlines ([''[set]'', ''seed='' @ py_str (randint_fn r 1 MAX_SEED), ''ups=True'', '''',
                          ''[order]'']
                         @ map (\<lambda>st. abbr_of st @ ''=0'') [a, b]
                         @ map (\<lambda>(i, st). abbr_of st @ ''='' @ py_str (int i + 1))
                             (enumerate 0 (stage_order_of (ordered_stages s')))
                         @ ['''', ''[number]'']
                         @ map (\<lambda>st. abbr_of st @ ''=5'') STAGE_NAMES
                         @ ['''']))"
proof -
  have dist: "distinct (banned_stages s)" and sub: "set (banned_stages s) \<subseteq> set STAGE_NAMES"
    and len: "length (banned_stages s) \<le> 7"
    using assms by simp_all
  from generate_ordered_stages_ok [OF assms(1) dist sub len]
  obtain arr where arr: "shuffle_remaining r (banned_stages s) = Inr arr"
    and marr: "mset arr = mset (remaining_of (banned_stages s))"
    by blast
  let ?os = "map (\<lambda>st. (st, 0, abbr_of st)) (banned_stages s)
             @ map (\<lambda>(i, st). (st, int i + 1, abbr_of st)) (enumerate 0 arr)"
  have sel: "stage_order_of (ordered_stages (s\<lparr>ordered_stages := ?os\<rparr>)) = arr"
    by (simp add: stage_order_of_shape)
  have olines: "map (\<lambda>(key, v). key @ ''='' @ v)
                  (map (\<lambda>st. (abbr_of st, ''0'')) (banned_stages s)
                   @ map (\<lambda>(i, st). (abbr_of st, py_str (int i + 1))) (enumerate 0 arr))
                = map (\<lambda>st. abbr_of st @ ''=0'') [a, b]
                  @ map (\<lambda>(i, st). abbr_of st @ ''='' @ py_str (int i + 1)) (enumerate 0 arr)"
    by (simp add: assms(2) comp_def case_prod_beta)
  have nlines: "map (\<lambda>(key, v). key @ ''='' @ v) (map (\<lambda>(stage, abbr). (abbr, ''5'')) stage_abbrs_value)
                = map (\<lambda>st. abbr_of st @ ''=5'') STAGE_NAMES"
    by (simp add: stage_abbrs_value_def STAGE_NAMES_def STAGES_def abbr_of_values)
  have "generate_config_file r s =
           Inr (s\<lparr>ordered_stages := ?os\<rparr>, ''config.ini'',
                unlines ([''[set]'', ''seed='' @ py_str (randint_fn r 1 MAX_SEED), ''ups=True'', '''',
                          ''[order]'']
                         @ map (\<lambda>st. abbr_of st @ ''=0'') [a, b]
                         @ map (\<lambda>(i, st). abbr_of st @ ''='' @ py_str (int i + 1)) (enumerate 0 arr)
                         @ ['''', ''[number]'']
                         @ map (\<lambda>st. abbr_of st @ ''=5'') STAGE_NAMES
                         @ ['''']))"
    unfolding generate_config_file_def config_sections_shape [OF dist sub arr marr]
    by (simp only: sum.case prod.case render_config_lines config_lines_three olines nlines) simp
  then show ?thesis
    by (intro exI [of _ "s\<lparr>ordered_stages := ?os\<rparr>"]) (simp only: sel)
qed

theorem config_key_order_witness:
  "(\<exists>s'. generate_config_file rng_swap two_bans =
           Inr (s', ''config.ini'',
                unlines ([''[set]'', ''seed='' @ py_str (randint_fn rng_swap 1 MAX_SEED), ''ups=True'', '''',
                          ''[order]'']
                         @ map (\<lambda>st. abbr_of st @ ''=0'') [''Wild Canyon'', ''Mad Space'']
                         @ map (\<lambda>(i, st). abbr_of st @ ''='' @ py_str (int i + 1))
                             (enumerate 0 (stage_order_of (ordered_stages s')))
                         @ ['''', ''[number]'']
                         @ map (\<lambda>st. abbr_of st @ ''=5'') STAGE_NAMES
                         @ [''''])))
   \<and> config_text (generate_config_file rng_swap two_bans)
       = unlines [''[set]'', ''seed=1'', ''ups=True'', '''',
                  ''[order]'', ''wc=0'', ''ms=0'', ''ph=1'', ''eq=2'', ''dl=3'', ''mh=4'', ''am=5'',
                  ''dc=6'', ''sh=7'', '''',
                  ''[number]'', ''wc=5'', ''ph=5'', ''dc=5'', ''am=5'', ''mh=5'', ''dl=5'', ''eq=5'',
                  ''sh=5'', ''ms=5'', '''']"
proof -
  have neq: "''Wild Canyon'' \<noteq> ''Mad Space''" by simp
  have explicit: "config_text (generate_config_file rng_swap two_bans)
       = unlines [''[set]'', ''seed=1'', ''ups=True'', '''',
                  ''[order]'', ''wc=0'', ''ms=0'', ''ph=1'', ''eq=2'', ''dl=3'', ''mh=4'', ''am=5'',
                  ''dc=6'', ''sh=7'', '''',
                  ''[number]'', ''wc=5'', ''ph=5'', ''dc=5'', ''am=5'', ''mh=5'', ''dl=5'', ''eq=5'',
                  ''sh=5'', ''ms=5'', '''']"
    unfolding swap_file [OF two_bans_banned] config_text_def
    by (simp only: sum.case prod.case)
  from config_key_order [OF rng_ok_swap two_bans_banned neq in_STAGE_NAMES(1) in_STAGE_NAMES(9)]
    explicit
  show ?thesis by (rule conjI)
qed

subsection \<open>What the two files depend on\<close>

lemma shuffle_remaining_cong:
  assumes "shuffle_fn r1 (remaining_of banned) = shuffle_fn r2 (remaining_of banned)"
    and "randint_fn r1 1 (int (length (shuffle_fn r1 (remaining_of banned))) - 1)
         = randint_fn r2 1 (int (length (shuffle_fn r1 (remaining_of banned))) - 1)"
  shows "shuffle_remaining r1 banned = shuffle_remaining r2 banned"
proof -
  have "randint r1 1 (int (length (shuffle_fn r1 (remaining_of banned))) - 1)
        = randint r2 1 (int (length (shuffle_fn r1 (remaining_of banned))) - 1)"
    using assms(2) by (simp add: randint_def)
  then show ?thesis
    unfolding shuffle_remaining_def assms(1) [symmetric]
    by (simp add: Let_def split: list.splits)
qed

lemma generate_ordered_stages_cong:
  "shuffle_remaining r1 (banned_stages s) = shuffle_remaining r2 (banned_stages s) \<Longrightarrow>
   generate_ordered_stages r1 s = generate_ordered_stages r2 s"
  by (simp add: generate_ordered_stages_def abbr_pass_STAGE_NAMES)

text \<open>Apart from the seed, the configuration is computed from the generated ordering.\<close>

lemma config_sections_seed:
  "config_sections r s =
     (case config_sections r s of
        Inl e \<Rightarrow> Inl e
      | Inr (s', config) \<Rightarrow>
          Inr (s', (''set'', [(''seed'', py_str (randint_fn r 1 MAX_SEED)), (''ups'', ''True'')]) # drop 1 config))"
  by (auto simp: config_sections_def randint_seed write_config_section_def Let_def
           split: sum.splits prod.splits)

lemma config_sections_rest_cong:
  assumes "generate_ordered_stages r1 s = generate_ordered_stages r2 s"
  shows "map_sum id (\<lambda>(s', cfg). (s', drop 1 cfg)) (config_sections r1 s)
         = map_sum id (\<lambda>(s', cfg). (s', drop 1 cfg)) (config_sections r2 s)"
  unfolding config_sections_def assms
  by (simp add: randint_seed write_config_section_def Let_def split: sum.splits prod.splits)

lemma config_lines_set:
  "config_lines ((''set'', [(''seed'', seed), (''ups'', ''True'')]) # rest)
   = [''[set]'', ''seed='' @ seed, ''ups=True'', ''''] @ config_lines rest"
  by (simp add: config_lines_def)

lemma generate_config_file_cong:
  assumes gen: "generate_ordered_stages r1 s = generate_ordered_stages r2 s"
  shows "(\<forall>e. generate_config_file r1 s = Inl e \<longrightarrow> generate_config_file r2 s = Inl e)
       \<and> (\<forall>s' name body. generate_config_file r1 s = Inr (s', name, body) \<longrightarrow>
            (\<exists>rest. body = unlines ([''[set]'', ''seed='' @ py_str (randint_fn r1 1 MAX_SEED), ''ups=True'', ''''] @ rest)
                   \<and> generate_config_file r2 s
                       = Inr (s', name,
                              unlines ([''[set]'', ''seed='' @ py_str (randint_fn r2 1 MAX_SEED), ''ups=True'', '''']
                                       @ rest))))"
proof (cases "config_sections r1 s")
  case (Inl e)
  with config_sections_rest_cong [OF gen] have "config_sections r2 s = Inl e"
    by (cases "config_sections r2 s") auto
  with Inl show ?thesis by (simp add: generate_config_file_def)
next
  case (Inr p)
  obtain s' c1 where p: "p = (s', c1)" by (cases p)
  with Inr config_sections_rest_cong [OF gen]
  obtain c2 where c2: "config_sections r2 s = Inr (s', c2)" "drop 1 c1 = drop 1 c2"
    by (cases "config_sections r2 s") auto
  have f1: "c1 = (''set'', [(''seed'', py_str (randint_fn r1 1 MAX_SEED)), (''ups'', ''True'')]) # drop 1 c1"
    using config_sections_seed [of r1 s] Inr p by simp
  have f2: "c2 = (''set'', [(''seed'', py_str (randint_fn r2 1 MAX_SEED)), (''ups'', ''True'')]) # drop 1 c1"
    using config_sections_seed [of r2 s] c2 by simp
  have t1: "render_config c1
            = unlines ([''[set]'', ''seed='' @ py_str (randint_fn r1 1 MAX_SEED), ''ups=True'', '''']
                       @ config_lines (drop 1 c1))"
    by (subst f1) (simp only: render_config_lines config_lines_set)
  have t2: "render_config c2
            = unlines ([''[set]'', ''seed='' @ py_str (randint_fn r2 1 MAX_SEED), ''ups=True'', '''']
                       @ config_lines (drop 1 c1))"
    by (subst f2) (simp only: render_config_lines config_lines_set)
  show ?thesis
    using Inr p c2(1) t1 t2 by (auto simp: generate_config_file_def)
qed

lemma split_file_cong:
  assumes "ordered_stages s = ordered_stages t" "runner1 s = runner1 t" "runner2 s = runner2 t"
  shows "snd (generate_split_file s) = snd (generate_split_file t)"
  unfolding generate_split_file_def create_livesplit_segments_def Let_def assms
  by (simp add: case_prod_beta)

text \<open>
  C4 as stated fails: on one and the same session, which holds a stored ordering, a call
  of the config serializer that meets one shuffle and a call that meets another write
  different order sections (\<open>dc=2\<close> in one file, \<open>dc=6\<close> in the other), the seed being 1
  in both.
\<close>

theorem order_section_changes_between_calls:
  "rng_ok rng_keep \<and> rng_ok rng_swap
   \<and> config_text (generate_config_file rng_keep stored_example)
       = unlines [''[set]'', ''seed=1'', ''ups=True'', '''',
                  ''[order]'', ''wc=0'', ''ms=0'', ''ph=1'', ''dc=2'', ''am=3'', ''mh=4'', ''dl=5'',
                  ''eq=6'', ''sh=7'', '''',
                  ''[number]'', ''wc=5'', ''ph=5'', ''dc=5'', ''am=5'', ''mh=5'', ''dl=5'', ''eq=5'',
                  ''sh=5'', ''ms=5'', '''']
   \<and> config_text (generate_config_file rng_swap stored_example)
       = unlines [''[set]'', ''seed=1'', ''ups=True'', '''',
                  ''[order]'', ''wc=0'', ''ms=0'', ''ph=1'', ''eq=2'', ''dl=3'', ''mh=4'', ''am=5'',
                  ''dc=6'', ''sh=7'', '''',
                  ''[number]'', ''wc=5'', ''ph=5'', ''dc=5'', ''am=5'', ''mh=5'', ''dl=5'', ''eq=5'',
                  ''sh=5'', ''ms=5'', '''']
   \<and> config_text (generate_config_file rng_keep stored_example)
       \<noteq> config_text (generate_config_file rng_swap stored_example)"
proof -
  have k: "config_text (generate_config_file rng_keep stored_example)
       = unlines [''[set]'', ''seed=1'', ''ups=True'', '''',
                  ''[order]'', ''wc=0'', ''ms=0'', ''ph=1'', ''dc=2'', ''am=3'', ''mh=4'', ''dl=5'',
                  ''eq=6'', ''sh=7'', '''',
                  ''[number]'', ''wc=5'', ''ph=5'', ''dc=5'', ''am=5'', ''mh=5'', ''dl=5'', ''eq=5'',
                  ''sh=5'', ''ms=5'', '''']"
    unfolding keep_file [OF stored_example_banned] config_text_def
    by (simp only: sum.case prod.case)
  have w: "config_text (generate_config_file rng_swap stored_example)
       = unlines [''[set]'', ''seed=1'', ''ups=True'', '''',
                  ''[order]'', ''wc=0'', ''ms=0'', ''ph=1'', ''eq=2'', ''dl=3'', ''mh=4'', ''am=5'',
                  ''dc=6'', ''sh=7'', '''',
                  ''[number]'', ''wc=5'', ''ph=5'', ''dc=5'', ''am=5'', ''mh=5'', ''dl=5'', ''eq=5'',
                  ''sh=5'', ''ms=5'', '''']"
    unfolding swap_file [OF stored_example_banned] config_text_def
    by (simp only: sum.case prod.case)
  have "config_text (generate_config_file rng_keep stored_example)
       \<noteq> config_text (generate_config_file rng_swap stored_example)"
    unfolding k w by (simp add: unlines_def)
  with k w rng_ok_keep rng_ok_swap show ?thesis by blast
qed

text \<open>
  C4, amended.  What \<open>generate_split_file\<close> produces (the exception, or the file name and
  the document) is a function of the stored ordering and the two runner names.
  \<open>generate_config_file\<close> takes no ordering as input: it generates the ordering afresh
  on every call, so what it writes is a function of the banned stages and of the random
  draws.  Two calls on the same session that meet the same shuffle and the same swap
  index either raise the same exception or store the same ordering and write files
  that are equal line by line after the seed line: \<open>[set]\<close>, the seed drawn by the
  call, \<open>ups=True\<close>, an empty line, and then the same lines in both.
\<close>

theorem serializers_determined:
  "(ordered_stages s = ordered_stages t \<and> runner1 s = runner1 t \<and> runner2 s = runner2 t
      \<longrightarrow> snd (generate_split_file s) = snd (generate_split_file t))
   \<and> (shuffle_fn r1 (remaining_of (banned_stages s)) = shuffle_fn r2 (remaining_of (banned_stages s))
       \<and> randint_fn r1 1 (int (length (shuffle_fn r1 (remaining_of (banned_stages s)))) - 1)
          = randint_fn r2 1 (int (length (shuffle_fn r1 (remaining_of (banned_stages s)))) - 1)
      \<longrightarrow> (\<forall>e. generate_config_file r1 s = Inl e \<longrightarrow> generate_config_file r2 s = Inl e)
          \<and> (\<forall>s' name body. generate_config_file r1 s = Inr (s', name, body) \<longrightarrow>
                (\<exists>rest. body = unlines ([''[set]'', ''seed='' @ py_str (randint_fn r1 1 MAX_SEED),
                                          ''ups=True'', ''''] @ rest)
                       \<and> generate_config_file r2 s
                           = Inr (s', name,
                                  unlines ([''[set]'', ''seed='' @ py_str (randint_fn r2 1 MAX_SEED),
                                            ''ups=True'', ''''] @ rest)))))"
proof -
  have A: "(ordered_stages s = ordered_stages t \<and> runner1 s = runner1 t \<and> runner2 s = runner2 t
      \<longrightarrow> snd (generate_split_file s) = snd (generate_split_file t))"
  proof
    assume "ordered_stages s = ordered_stages t \<and> runner1 s = runner1 t \<and> runner2 s = runner2 t"
  then show "snd (generate_split_file s) = snd (generate_split_file t)"
      by (intro split_file_cong) simp_all
  qed
  have B: "(shuffle_fn r1 (remaining_of (banned_stages s)) = shuffle_fn r2 (remaining_of (banned_stages s))
       \<and> randint_fn r1 1 (int (length (shuffle_fn r1 (remaining_of (banned_stages s)))) - 1)
          = randint_fn r2 1 (int (length (shuffle_fn r1 (remaining_of (banned_stages s)))) - 1)
      \<longrightarrow> (\<forall>e. generate_config_file r1 s = Inl e \<longrightarrow> generate_config_file r2 s = Inl e)
          \<and> (\<forall>s' name body. generate_config_file r1 s = Inr (s', name, body) \<longrightarrow>
                (\<exists>rest. body = unlines ([''[set]'', ''seed='' @ py_str (randint_fn r1 1 MAX_SEED),
                                          ''ups=True'', ''''] @ rest)
                       \<and> generate_config_file r2 s
                           = Inr (s', name,
                                  unlines ([''[set]'', ''seed='' @ py_str (randint_fn r2 1 MAX_SEED),
                                            ''ups=True'', ''''] @ rest)))))"
  proof
  assume a: "shuffle_fn r1 (remaining_of (banned_stages s)) = shuffle_fn r2 (remaining_of (banned_stages s))
       \<and> randint_fn r1 1 (int (length (shuffle_fn r1 (remaining_of (banned_stages s)))) - 1)
          = randint_fn r2 1 (int (length (shuffle_fn r1 (remaining_of (banned_stages s)))) - 1)"
  from a have a1: "shuffle_fn r1 (remaining_of (banned_stages s)) = shuffle_fn r2 (remaining_of (banned_stages s))"
    by (rule conjunct1)
  from a have a2: "randint_fn r1 1 (int (length (shuffle_fn r1 (remaining_of (banned_stages s)))) - 1)
          = randint_fn r2 1 (int (length (shuffle_fn r1 (remaining_of (banned_stages s)))) - 1)"
    by (rule conjunct2)
  have "shuffle_remaining r1 (banned_stages s) = shuffle_remaining r2 (banned_stages s)"
    by (rule shuffle_remaining_cong [OF a1 a2])
  then have gen: "generate_ordered_stages r1 s = generate_ordered_stages r2 s"
    by (rule generate_ordered_stages_cong)
  from generate_config_file_cong [OF gen]
  show "(\<forall>e. generate_config_file r1 s = Inl e \<longrightarrow> generate_config_file r2 s = Inl e)
          \<and> (\<forall>s' name body. generate_config_file r1 s = Inr (s', name, body) \<longrightarrow>
                (\<exists>rest. body = unlines ([''[set]'', ''seed='' @ py_str (randint_fn r1 1 MAX_SEED),
                                          ''ups=True'', ''''] @ rest)
                       \<and> generate_config_file r2 s
                           = Inr (s', name,
                                  unlines ([''[set]'', ''seed='' @ py_str (randint_fn r2 1 MAX_SEED),
                                            ''ups=True'', ''''] @ rest))))"
    .
  qed
  from A B show ?thesis by (rule conjI)
qed

lemma stored_example_split_file:
  "map_sum id (\<lambda>(name, doc). (name, length (document_segment_names doc), document_segment_names doc ! 34))
     (snd (generate_split_file stored_example))
   = Inr (''SA2B - Hunting Tourney - Alice vs Bob.lss'', 35, ''Security Hall 5 (35/35)'')"
  by code_simp

theorem serializers_determined_witness:
  "snd (generate_split_file stored_example)
     = snd (generate_split_file (stored_example\<lparr>banned_stages := [], draft_active := True\<rparr>))
   \<and> map_sum id (\<lambda>(name, doc). (name, length (document_segment_names doc), document_segment_names doc ! 34))
         (snd (generate_split_file stored_example))
       = Inr (''SA2B - Hunting Tourney - Alice vs Bob.lss'', 35, ''Security Hall 5 (35/35)'')
   \<and> shuffle_fn rng_swap (remaining_of (banned_stages stored_example)) ! 0 = ''Security Hall''
   \<and> (\<exists>s' rest.
         generate_config_file rng_swap stored_example
           = Inr (s', ''config.ini'', unlines ([''[set]'', ''seed=1'', ''ups=True'', ''''] @ rest))
         \<and> generate_config_file rng_swap2 stored_example
           = Inr (s', ''config.ini'', unlines ([''[set]'', ''seed=2'', ''ups=True'', ''''] @ rest)))"
proof -
  let ?t = "stored_example\<lparr>banned_stages := [], draft_active := True\<rparr>"
  note inst = serializers_determined [of stored_example ?t rng_swap rng_swap2]
  have pre1: "ordered_stages stored_example = ordered_stages ?t
              \<and> runner1 stored_example = runner1 ?t \<and> runner2 stored_example = runner2 ?t"
    by simp
  have pre2: "shuffle_fn rng_swap (remaining_of (banned_stages stored_example))
                = shuffle_fn rng_swap2 (remaining_of (banned_stages stored_example))
       \<and> randint_fn rng_swap 1 (int (length (shuffle_fn rng_swap (remaining_of (banned_stages stored_example)))) - 1)
          = randint_fn rng_swap2 1 (int (length (shuffle_fn rng_swap (remaining_of (banned_stages stored_example)))) - 1)"
    by (simp add: rng_swap_def rng_swap2_def stored_example_banned wc_ms_remaining)
  from inst pre1 have c1: "snd (generate_split_file stored_example) = snd (generate_split_file ?t)"
    by blast
  from inst pre2 swap_file [OF stored_example_banned]
  obtain s' rest where
    "generate_config_file rng_swap stored_example
       = Inr (s', ''config.ini'',
              unlines ([''[set]'', ''seed='' @ py_str (randint_fn rng_swap 1 MAX_SEED), ''ups=True'', ''''] @ rest))"
    "generate_config_file rng_swap2 stored_example
       = Inr (s', ''config.ini'',
              unlines ([''[set]'', ''seed='' @ py_str (randint_fn rng_swap2 1 MAX_SEED), ''ups=True'', ''''] @ rest))"
    by metis
  then have c4: "\<exists>s' rest.
         generate_config_file rng_swap stored_example
           = Inr (s', ''config.ini'', unlines ([''[set]'', ''seed=1'', ''ups=True'', ''''] @ rest))
         \<and> generate_config_file rng_swap2 stored_example
           = Inr (s', ''config.ini'', unlines ([''[set]'', ''seed=2'', ''ups=True'', ''''] @ rest))"
    unfolding swap_seed by (simp add: py_str_small py_str_two) blast
  have c3: "shuffle_fn rng_swap (remaining_of (banned_stages stored_example)) ! 0 = ''Security Hall''"
    by (simp only: stored_example_banned swap_wc_ms_first)
  from c1 stored_example_split_file c3 c4 show ?thesis by blast
qed

section \<open>The ban flow\<close>

subsection \<open>The first guard of \<open>_process_ban\<close>\<close>

lemma process_ban_guard:
  assumes "\<not> draft_active s \<or> \<not> getattr_waiting s waiting"
  shows "process_ban r x banner next_banner line_index waiting next_waiting is_final_ban s
         = (Returned, [], s)"
  using assms by (simp add: process_ban_def)

lemma process_ban1_guard:
  assumes "\<not> draft_active s \<or> \<not> waiting_for_ban1 s"
  shows "process_ban1 r x s = (Returned, [], s)"
  unfolding process_ban1_def using assms by (intro process_ban_guard) simp

lemma process_ban2_guard:
  assumes "\<not> draft_active s \<or> \<not> waiting_for_ban2 s"
  shows "process_ban2 r x s = (Returned, [], s)"
  unfolding process_ban2_def using assms by (intro process_ban_guard) simp

lemma console_input_step_guard:
  assumes "\<not> draft_active s \<or> (\<not> waiting_for_ban1 s \<and> \<not> waiting_for_ban2 s)"
  shows "console_input_step r stage_input s = ([], s)"
  using assms by (auto simp: console_input_step_def)

lemma conclude_draft_returned:
  assumes "conclude_draft r x b s = (Returned, e, t)"
  shows "\<not> draft_active t \<and> \<not> waiting_for_ban2 t"
  using assms
  by (auto simp: conclude_draft_def Let_def split: sum.splits prod.splits)

text \<open>
  An exception of \<open>open\<close> in \<open>generate_split_file\<close> leaves \<open>conclude_draft\<close> before the flags
  are cleared.
\<close>

lemma generate_split_file_slash:
  assumes "CHR ''/'' \<in> set (fmt_opt (runner1 s)) \<or> CHR ''/'' \<in> set (fmt_opt (runner2 s))"
  shows "snd (generate_split_file s) = Inl FileNotFoundError"
  using assms
  by (auto simp: generate_split_file_def Let_def open_for_write_def split: prod.splits)

subsection \<open>The example runs\<close>

lemma started_state: "ban_state started = ([], True, True, False)"
  by code_simp

lemma first_ban_returned: "fst (process_ban1 rng_keep ''Wild Canyon'' started) = Returned"
  by code_simp

lemma after_first_ban_state: "ban_state after_first_ban = ([''Wild Canyon''], True, False, True)"
  by code_simp

lemma concluded_state:
  "ban_state concluded = ([''Wild Canyon'', ''Pumpkin Hill''], False, False, False)"
  by code_simp

lemma slash_started_runners:
  "(runner1 slash_started, runner2 slash_started) = (Some ''a/b'', Some ''Bob'')"
  by code_simp

lemma slash_first_state: "ban_state slash_first = ([''Wild Canyon''], True, False, True)"
  by code_simp

lemma slash_second_raised:
  "fst (process_ban2 rng_keep ''Pumpkin Hill'' slash_first) = Raised FileNotFoundError"
  by code_simp

lemma slash_second_printed:
  "last (fst (console_input_step rng_keep ''pumpkin'' slash_first))
   = PrintError ''Error processing ban2: '' FileNotFoundError"
  by code_simp

lemma slash_second_state:
  "ban_state slash_second = ([''Wild Canyon'', ''Pumpkin Hill''], True, False, True)"
  by code_simp

lemma slash_third_state:
  "ban_state slash_third = ([''Wild Canyon'', ''Pumpkin Hill'', ''Death Chamber''], True, False, True)"
  by code_simp

lemma resolve_examples:
  "map resolve_stage_name [''WC'', ''pumpkin'', ''dc'']
   = [Some ''Wild Canyon'', Some ''Pumpkin Hill'', Some ''Death Chamber'']"
  by code_simp

text \<open>
  C6.  The claim: in every state reachable through the ban flow \<open>banned_stages\<close> has at most
  two entries.  The flow aims at that: \<open>process_ban2\<close> is the final ban, and the conclusion
  clears \<open>waiting_for_ban2\<close> and \<open>draft_active\<close>.  But it clears them last (lines 618-619),
  after \<open>generate_config_file\<close> and \<open>generate_split_file\<close>, and an exception of either
  leaves them set.  After \<open>!start a/b Bob\<close> the runner's name is part of the name of the
  split file, \<open>open\<close> raises \<open>FileNotFoundError\<close> when the second ban has been appended,
  the console loop prints the exception and, the draft still active and the second ban
  still awaited, reads on: the line \<open>dc\<close> is recorded as a third ban.
\<close>

theorem third_ban_after_failed_split_file:
  "(runner1 slash_started, runner2 slash_started) = (Some ''a/b'', Some ''Bob'')
   \<and> map resolve_stage_name [''WC'', ''pumpkin'', ''dc'']
       = [Some ''Wild Canyon'', Some ''Pumpkin Hill'', Some ''Death Chamber'']
   \<and> ban_state slash_first = ([''Wild Canyon''], True, False, True)
   \<and> fst (process_ban2 rng_keep ''Pumpkin Hill'' slash_first) = Raised FileNotFoundError
   \<and> last (fst (console_input_step rng_keep ''pumpkin'' slash_first))
       = PrintError ''Error processing ban2: '' FileNotFoundError
   \<and> banned_stages slash_second = [''Wild Canyon'', ''Pumpkin Hill'']
   \<and> draft_active slash_second \<and> waiting_for_ban2 slash_second
   \<and> banned_stages slash_third = [''Wild Canyon'', ''Pumpkin Hill'', ''Death Chamber'']
   \<and> length (banned_stages slash_third) = 3"
proof -
  from slash_second_state have second:
    "banned_stages slash_second = [''Wild Canyon'', ''Pumpkin Hill'']"
    "draft_active slash_second" "waiting_for_ban2 slash_second"
    by (simp_all add: ban_state_def)
  from slash_third_state have third:
    "banned_stages slash_third = [''Wild Canyon'', ''Pumpkin Hill'', ''Death Chamber'']"
    by (simp add: ban_state_def)
  from third have "length (banned_stages slash_third) = 3" by simp
  with slash_started_runners resolve_examples slash_first_state slash_second_raised
    slash_second_printed second third
  show ?thesis by (intro conjI)
qed

text \<open>
  C7 as stated fails.  The claim has a refused ban report \<open>NotAwaitingBan\<close> to its caller.
  \<open>_process_ban\<close> returns \<open>None\<close> from its first guard, prints nothing and sends nothing:
  after the draft of Alice and Bob is concluded, what the caller of \<open>process_ban2\<close> gets
  is what the caller of \<open>process_ban1\<close> got when the first ban was accepted and recorded,
  and the console turn puts out nothing at all.
\<close>

theorem refused_ban_reports_nothing:
  "\<not> draft_active concluded
   \<and> process_ban2 rng_keep ''Mad Space'' concluded = (Returned, [], concluded)
   \<and> console_input_step rng_keep ''Mad Space'' concluded = ([], concluded)
   \<and> draft_active started \<and> waiting_for_ban1 started
   \<and> fst (process_ban1 rng_keep ''Wild Canyon'' started) = Returned
   \<and> banned_stages after_first_ban = [''Wild Canyon'']
   \<and> fst (process_ban2 rng_keep ''Mad Space'' concluded)
       = fst (process_ban1 rng_keep ''Wild Canyon'' started)"
proof -
  from concluded_state have c: "\<not> draft_active concluded" by (simp add: ban_state_def)
  from started_state have s: "draft_active started" "waiting_for_ban1 started"
    by (simp_all add: ban_state_def)
  from after_first_ban_state have a: "banned_stages after_first_ban = [''Wild Canyon'']"
    by (simp add: ban_state_def)
  from c have p: "process_ban2 rng_keep ''Mad Space'' concluded = (Returned, [], concluded)"
    by (intro process_ban2_guard) simp
  from c have q: "console_input_step rng_keep ''Mad Space'' concluded = ([], concluded)"
    by (intro console_input_step_guard) simp
  from p first_ban_returned
  have "fst (process_ban2 rng_keep ''Mad Space'' concluded)
        = fst (process_ban1 rng_keep ''Wild Canyon'' started)"
    by simp
  with c p q s a first_ban_returned show ?thesis by (intro conjI)
qed

text \<open>
  C7, amended.  When the draft is not active (after \<open>__init__\<close>, after \<open>reset\<close>, after a
  conclusion that returned) or the ban is not awaited, \<open>_process_ban\<close>, \<open>process_ban1\<close> and
  \<open>process_ban2\<close> return \<open>None\<close> at the first guard with the session unchanged and nothing
  printed, written or sent; and a turn of the console loop with the draft not active or
  no ban awaited changes nothing and puts out nothing.
\<close>

theorem not_awaiting_ban_is_silent_noop:
  "(\<not> draft_active s \<or> \<not> getattr_waiting s waiting
      \<longrightarrow> process_ban r full_stage_name banner next_banner line_index waiting next_waiting
            is_final_ban s = (Returned, [], s))
   \<and> (\<not> draft_active s \<or> \<not> waiting_for_ban1 s
      \<longrightarrow> process_ban1 r full_stage_name s = (Returned, [], s))
   \<and> (\<not> draft_active s \<or> \<not> waiting_for_ban2 s
      \<longrightarrow> process_ban2 r full_stage_name s = (Returned, [], s))
   \<and> (\<not> draft_active s \<or> (\<not> waiting_for_ban1 s \<and> \<not> waiting_for_ban2 s)
      \<longrightarrow> console_input_step r stage_input s = ([], s))
   \<and> \<not> draft_active init_session \<and> \<not> draft_active (reset s)
   \<and> (\<forall>e t. conclude_draft r full_stage_name b s = (Returned, e, t) \<longrightarrow> \<not> draft_active t)"
proof -
  have A: "\<not> draft_active s \<or> \<not> getattr_waiting s waiting
      \<longrightarrow> process_ban r full_stage_name banner next_banner line_index waiting next_waiting
            is_final_ban s = (Returned, [], s)"
    using process_ban_guard by blast
  have B: "\<not> draft_active s \<or> \<not> waiting_for_ban1 s
      \<longrightarrow> process_ban1 r full_stage_name s = (Returned, [], s)"
    using process_ban1_guard by blast
  have C: "\<not> draft_active s \<or> \<not> waiting_for_ban2 s
      \<longrightarrow> process_ban2 r full_stage_name s = (Returned, [], s)"
    using process_ban2_guard by blast
  have D: "\<not> draft_active s \<or> (\<not> waiting_for_ban1 s \<and> \<not> waiting_for_ban2 s)
      \<longrightarrow> console_input_step r stage_input s = ([], s)"
    using console_input_step_guard by blast
  have E: "\<not> draft_active init_session" by (simp add: init_session_def)
  have F: "\<not> draft_active (reset s)" by (simp add: reset_def clear_draft_status_def)
  have G: "\<forall>e t. conclude_draft r full_stage_name b s = (Returned, e, t) \<longrightarrow> \<not> draft_active t"
    using conclude_draft_returned by blast
  from A B C D E F G show ?thesis by (intro conjI)
qed

theorem not_awaiting_ban_is_silent_noop_witness:
  "\<not> draft_active concluded \<and> \<not> draft_active init_session
   \<and> draft_active started \<and> \<not> waiting_for_ban2 started
   \<and> console_input_step rng_keep ''Mad Space'' concluded = ([], concluded)
   \<and> console_input_step rng_keep ''WC'' init_session = ([], init_session)
   \<and> process_ban1 rng_keep ''Mad Space'' concluded = (Returned, [], concluded)
   \<and> process_ban2 rng_keep ''Mad Space'' concluded = (Returned, [], concluded)
   \<and> process_ban2 rng_keep ''Mad Space'' started = (Returned, [], started)"
proof -
  from concluded_state have c: "\<not> draft_active concluded" by (simp add: ban_state_def)
  have i: "\<not> draft_active init_session" by (simp add: init_session_def)
  from started_state have s: "draft_active started" "\<not> waiting_for_ban2 started"
    by (simp_all add: ban_state_def)
  note at_concluded =
    not_awaiting_ban_is_silent_noop [of concluded Waiting_for_ban2 rng_keep "''Mad Space''"
      None None 1 None True "''Mad Space''" "''x''"]
  note at_init =
    not_awaiting_ban_is_silent_noop [of init_session Waiting_for_ban1 rng_keep "''WC''"
      None None 1 None True "''WC''" "''x''"]
  note at_started =
    not_awaiting_ban_is_silent_noop [of started Waiting_for_ban2 rng_keep "''Mad Space''"
      None None 1 None True "''Mad Space''" "''x''"]
  from at_concluded c
  have "console_input_step rng_keep ''Mad Space'' concluded = ([], concluded)"
    "process_ban1 rng_keep ''Mad Space'' concluded = (Returned, [], concluded)"
    "process_ban2 rng_keep ''Mad Space'' concluded = (Returned, [], concluded)"
    by blast+
  moreover from at_init i
  have "console_input_step rng_keep ''WC'' init_session = ([], init_session)"
    by blast
  moreover from at_started s
  have "process_ban2 rng_keep ''Mad Space'' started = (Returned, [], started)"
    by blast
  ultimately show ?thesis using c i s by (intro conjI)
qed

end
